theory Spec2Isabelle
  imports Main "HOL-Library.Monad_Syntax"
begin

section \<open>Strings\<close>

text \<open>
  A Python \<open>str\<close> is modelled as a \<open>string\<close> whose characters are the code points
  below 256 (Latin-1). The character classes below are those of \<open>str.isspace\<close>,
  \<open>str.isdigit\<close>, \<open>int()\<close> and \<open>str.lower\<close> on that range.
\<close>

definition isspace :: "char \<Rightarrow> bool" where
  "isspace c \<longleftrightarrow> c \<in> set [CHR 0x09, CHR 0x0A, CHR 0x0B, CHR 0x0C, CHR 0x0D,
       CHR 0x1C, CHR 0x1D, CHR 0x1E, CHR 0x1F, CHR 0x20, CHR 0x85, CHR 0xA0]"

definition strip :: "string \<Rightarrow> string" where
  "strip s = rev (dropWhile isspace (rev (dropWhile isspace s)))"

text \<open>The decimal digits \<open>0\<close> .. \<open>9\<close>: what \<open>int()\<close> and the regex class \<open>\d\<close> accept.\<close>

definition is_dec :: "char \<Rightarrow> bool" where
  "is_dec c \<longleftrightarrow> 48 \<le> (of_char c :: nat) \<and> (of_char c :: nat) \<le> 57"

definition digit_val :: "char \<Rightarrow> nat" where
  "digit_val c = of_char c - 48"

definition digit_char :: "nat \<Rightarrow> char" where
  "digit_char d = char_of (48 + d)"

text \<open>\<open>str.isdigit\<close> also accepts the superscript digits (code points B2, B3, B9).\<close>

definition isdigit_char :: "char \<Rightarrow> bool" where
  "isdigit_char c \<longleftrightarrow> is_dec c \<or> c \<in> set [CHR 0xB2, CHR 0xB3, CHR 0xB9]"

definition isdigit :: "string \<Rightarrow> bool" where
  "isdigit s \<longleftrightarrow> s \<noteq> [] \<and> list_all isdigit_char s"

definition lower_char :: "char \<Rightarrow> char" where
  "lower_char c =
     (let n = (of_char c :: nat)
      in if (65 \<le> n \<and> n \<le> 90) \<or> (192 \<le> n \<and> n \<le> 222 \<and> n \<noteq> 215)
         then char_of (n + 32) else c)"

definition lower :: "string \<Rightarrow> string" where
  "lower s = map lower_char s"

fun starts_with :: "string \<Rightarrow> string \<Rightarrow> bool" where
  "starts_with [] s = True"
| "starts_with (p # ps) [] = False"
| "starts_with (p # ps) (c # cs) = (p = c \<and> starts_with ps cs)"

text \<open>\<open>search in text\<close>: \<open>search\<close> occurs in \<open>text\<close> as a contiguous substring.\<close>

fun contains :: "string \<Rightarrow> string \<Rightarrow> bool" where
  "contains [] search = (search = [])"
| "contains (c # cs) search = (starts_with search (c # cs) \<or> contains cs search)"

section \<open>Errors\<close>

text \<open>
  \<open>ValueError\<close> carries its message. \<open>OutOfRange\<close> stands for what
  \<open>datetime.utcfromtimestamp\<close> raises beyond year 9999 (a \<open>ValueError\<close>, an
  \<open>OSError\<close> or an \<open>OverflowError\<close>, by magnitude). \<open>FetchError\<close> is any exception
  leaving an adapter's \<open>extract\<close>, \<open>DatabaseError\<close> the one of \<open>sqlite3\<close>.
\<close>

datatype error = ValueError string | OutOfRange | FetchError | DatabaseError

text \<open>
  \<open>int(value)\<close> on a string: only decimal digits convert, and the interpreter refuses a
  run of more than \<open>sys.get_int_max_str_digits()\<close> digits, 4300 unless configured
  otherwise, leading zeros included. Both refusals are a \<open>ValueError\<close> (the messages are
  shortened here).
\<close>

definition digits_to_nat :: "string \<Rightarrow> nat" where
  "digits_to_nat s = foldl (\<lambda>a c. 10 * a + digit_val c) 0 s"

definition max_str_digits :: nat where
  "max_str_digits = 4300"

definition py_int :: "string \<Rightarrow> error + nat" where
  "py_int s =
     (if length (takeWhile is_dec s) > max_str_digits
      then Inl (ValueError ''Exceeds the limit (4300 digits) for integer string conversion'')
      else if s \<noteq> [] \<and> list_all is_dec s then Inr (digits_to_nat s)
      else Inl (ValueError ''invalid literal for int() with base 10''))"

section \<open>The canonical record\<close>

record JobRecord =
  source :: string
  source_id :: string
  title :: string
  company :: string
  location :: string
  url :: string
  tags :: string
  date_posted :: string
  salary :: string
  description :: string

section \<open>Dates and times\<close>

text \<open>
  \<open>datetime\<close>: the fields of a \<open>datetime.datetime\<close>; \<open>tzinfo\<close> is \<open>None\<close> for a naive value
  and otherwise the fixed UTC offset in microseconds.
\<close>

record datetime =
  year :: nat
  month :: nat
  day :: nat
  hour :: nat
  minute :: nat
  second :: nat
  microsecond :: nat
  tzinfo :: "int option"

definition is_leap :: "nat \<Rightarrow> bool" where
  "is_leap y \<longleftrightarrow> y mod 4 = 0 \<and> (y mod 100 \<noteq> 0 \<or> y mod 400 = 0)"

definition days_in_month :: "nat \<Rightarrow> nat \<Rightarrow> nat" where
  "days_in_month y m =
     (if m = 2 then (if is_leap y then 29 else 28)
      else if m = 4 \<or> m = 6 \<or> m = 9 \<or> m = 11 then 30 else 31)"

definition days_before_year :: "nat \<Rightarrow> nat" where
  "days_before_year y = (y - 1) * 365 + (y - 1) div 4 + (y - 1) div 400 - (y - 1) div 100"

definition days_before_month :: "nat \<Rightarrow> nat \<Rightarrow> nat" where
  "days_before_month y m = (\<Sum>k\<leftarrow>[1..<m]. days_in_month y k)"

definition ymd_to_ord :: "nat \<Rightarrow> nat \<Rightarrow> nat \<Rightarrow> nat" where
  "ymd_to_ord y m d = days_before_year y + days_before_month y m + d"

text \<open>
  \<open>ord_to_ymd\<close> follows \<open>_ord2ymd\<close> of the standard library: the proleptic Gregorian
  date of a day number, day 1 being 0001-01-01.
\<close>

definition ord_to_ymd :: "nat \<Rightarrow> nat \<times> nat \<times> nat" where
  "ord_to_ymd ordinal =
     (let n = ordinal - 1;
          n400 = n div 146097; n = n mod 146097;
          n100 = n div 36524; n = n mod 36524;
          n4 = n div 1461; n = n mod 1461;
          n1 = n div 365; n = n mod 365;
          y = n400 * 400 + 1 + n100 * 100 + n4 * 4 + n1
      in if n1 = 4 \<or> n100 = 4 then (y - 1, 12, 31)
         else
           let m = (n + 50) div 32;
               preceding = days_before_month y m
           in if preceding > n
              then (y, m - 1, n + 1 - (preceding - days_in_month y (m - 1)))
              else (y, m, n + 1 - preceding))"

definition valid_date :: "nat \<Rightarrow> nat \<Rightarrow> nat \<Rightarrow> bool" where
  "valid_date y m d \<longleftrightarrow>
     1 \<le> y \<and> y \<le> 9999 \<and> 1 \<le> m \<and> m \<le> 12 \<and> 1 \<le> d \<and> d \<le> days_in_month y m"

text \<open>Seconds since 0001-01-01T00:00:00 plus one day, as \<open>utc_to_seconds\<close> of CPython counts.\<close>

definition utc_to_seconds :: "datetime \<Rightarrow> int" where
  "utc_to_seconds dt =
     int (((ymd_to_ord (year dt) (month dt) (day dt) * 24 + hour dt) * 60 + minute dt) * 60
          + second dt)"

definition epoch :: int where
  "epoch = 719163 * 24 * 60 * 60"

text \<open>
  \<open>datetime.utcfromtimestamp(n)\<close> for \<open>n \<ge> 0\<close>: the naive UTC date-time of \<open>n\<close> seconds
  after the epoch; it raises beyond 9999-12-31T23:59:59.
\<close>

definition utcfromtimestamp :: "nat \<Rightarrow> error + datetime" where
  "utcfromtimestamp n =
     (if n > 253402300799 then Inl OutOfRange
      else
        let (y, m, d) = ord_to_ymd (n div 86400 + 719163); r = n mod 86400
        in Inr \<lparr>year = y, month = m, day = d, hour = r div 3600, minute = r mod 3600 div 60,
                second = r mod 60, microsecond = 0, tzinfo = None\<rparr>)"

subsection \<open>Formatting\<close>

text \<open>\<open>'%0wd' % n\<close>: the decimal digits of \<open>n\<close>, padded with zeros on the left to width \<open>w\<close>.\<close>

fun digits :: "nat \<Rightarrow> string" where
  "digits n = (if n < 10 then [digit_char n] else digits (n div 10) @ [digit_char (n mod 10)])"

declare digits.simps [simp del]

definition zfill :: "nat \<Rightarrow> nat \<Rightarrow> string" where
  "zfill w n = replicate (w - length (digits n)) CHR ''0'' @ digits n"

text \<open>\<open>_format_offset\<close>: \<open>+HH:MM\<close>, with \<open>:SS\<close> and \<open>.ffffff\<close> only when they are not zero.\<close>

definition format_offset :: "int option \<Rightarrow> string" where
  "format_offset off =
     (case off of
        None \<Rightarrow> []
      | Some v \<Rightarrow>
          let a = nat (abs v);
              hh = a div 3600000000; r = a mod 3600000000;
              mm = r div 60000000; ss = r mod 60000000
          in (if v < 0 then ''-'' else ''+'') @ zfill 2 hh @ '':'' @ zfill 2 mm
             @ (if ss \<noteq> 0
                then '':'' @ zfill 2 (ss div 1000000)
                     @ (if ss mod 1000000 \<noteq> 0 then ''.'' @ zfill 6 (ss mod 1000000) else [])
                else []))"

definition date_isoformat :: "datetime \<Rightarrow> string" where
  "date_isoformat dt = zfill 4 (year dt) @ ''-'' @ zfill 2 (month dt) @ ''-'' @ zfill 2 (day dt)"

definition isoformat :: "datetime \<Rightarrow> string" where
  "isoformat dt =
     date_isoformat dt @ ''T'' @ zfill 2 (hour dt) @ '':'' @ zfill 2 (minute dt) @ '':''
     @ zfill 2 (second dt)
     @ (if microsecond dt \<noteq> 0 then ''.'' @ zfill 6 (microsecond dt) else [])
     @ format_offset (tzinfo dt)"

subsection \<open>Parsing: \<open>datetime.strptime\<close>\<close>

text \<open>
  \<open>strptime\<close> turns the format into a regular expression, matches it case-insensitively
  at the start of the input, and raises \<open>ValueError\<close> when there is no match, when input is
  left over, or when the fields are not a date-time. The directive patterns are
  \<^item> \<open>%Y\<close>: \<open>\d\d\d\d\<close>
  \<^item> \<open>%m\<close>: \<open>1[0-2]|0[1-9]|[1-9]\<close>
  \<^item> \<open>%d\<close>: \<open>3[0-1]|[1-2]\d|0[1-9]|[1-9]| [1-9]\<close>
  \<^item> \<open>%H\<close>: \<open>2[0-3]|[0-1]\d|\d\<close>
  \<^item> \<open>%M\<close>: \<open>[0-5]\d|\d\<close>
  \<^item> \<open>%S\<close>: \<open>6[0-1]|[0-5]\d|\d\<close>
  \<^item> \<open>%z\<close>: \<open>[+-]\d\d:?[0-5]\d(:?[0-5]\d(\.\d{1,6})?)?|Z\<close> (the \<open>Z\<close> in upper case only)
  \<^item> \<open>%a\<close>, \<open>%b\<close>: the abbreviated day and month names of the C locale
  \<^item> white space in the format: \<open>\s+\<close>.

  Each matcher below returns the value matched and the rest of the input, or \<open>None\<close>.
  A numeric directive tries its two-digit alternatives before its one-digit alternative,
  as the pattern does. In the three formats used here every numeric directive is followed
  by a literal, by \<open>\s+\<close>, by \<open>%z\<close> or by the end of the input, none of which accepts a
  digit, so the one-digit alternative cannot succeed where a two-digit alternative matched
  and the first alternative that matches is the only one that can lead to a match.
\<close>

definition re_year :: "string \<Rightarrow> (nat \<times> string) option" where
  "re_year s =
     (case s of
        a # b # c # d # r \<Rightarrow>
          if is_dec a \<and> is_dec b \<and> is_dec c \<and> is_dec d
          then Some (digits_to_nat [a, b, c, d], r) else None
      | _ \<Rightarrow> None)"

text \<open>One or two digits with a value from \<open>lo\<close> to \<open>hi\<close>, two digits first.\<close>

definition re_num :: "nat \<Rightarrow> nat \<Rightarrow> string \<Rightarrow> (nat \<times> string) option" where
  "re_num lo hi s =
     (case s of
        [] \<Rightarrow> None
      | a # r \<Rightarrow>
          if \<not> is_dec a then None
          else
            (case r of
               b # r' \<Rightarrow>
                 if is_dec b \<and> lo \<le> digits_to_nat [a, b] \<and> digits_to_nat [a, b] \<le> hi
                 then Some (digits_to_nat [a, b], r')
                 else if lo \<le> digit_val a then Some (digit_val a, r) else None
             | [] \<Rightarrow> if lo \<le> digit_val a then Some (digit_val a, r) else None))"

definition re_month :: "string \<Rightarrow> (nat \<times> string) option" where
  "re_month = re_num 1 12"

definition re_day :: "string \<Rightarrow> (nat \<times> string) option" where
  "re_day s =
     (case re_num 1 31 s of
        Some v \<Rightarrow> Some v
      | None \<Rightarrow>
          (case s of
             a # b # r \<Rightarrow>
               if a = CHR '' '' \<and> is_dec b \<and> 1 \<le> digit_val b then Some (digit_val b, r) else None
           | _ \<Rightarrow> None))"

definition re_hour :: "string \<Rightarrow> (nat \<times> string) option" where
  "re_hour = re_num 0 23"

definition re_minute :: "string \<Rightarrow> (nat \<times> string) option" where
  "re_minute = re_num 0 59"

definition re_second :: "string \<Rightarrow> (nat \<times> string) option" where
  "re_second = re_num 0 61"

text \<open>A literal character of the format, matched ignoring case.\<close>

definition re_lit :: "char \<Rightarrow> string \<Rightarrow> string option" where
  "re_lit c s = (case s of [] \<Rightarrow> None | a # r \<Rightarrow> if lower_char a = lower_char c then Some r else None)"

text \<open>\<open>\s+\<close>: one or more white-space characters, as many as there are.\<close>

definition re_space :: "string \<Rightarrow> string option" where
  "re_space s = (case s of [] \<Rightarrow> None | a # r \<Rightarrow> if isspace a then Some (dropWhile isspace r) else None)"

definition a_weekday :: "string list" where
  "a_weekday = [''mon'', ''tue'', ''wed'', ''thu'', ''fri'', ''sat'', ''sun'']"

definition a_month :: "string list" where
  "a_month = [[], ''jan'', ''feb'', ''mar'', ''apr'', ''may'', ''jun'', ''jul'', ''aug'', ''sep'',
              ''oct'', ''nov'', ''dec'']"

fun index_of :: "string list \<Rightarrow> string \<Rightarrow> nat option" where
  "index_of [] w = None"
| "index_of (x # xs) w = (if x = w then Some 0 else map_option Suc (index_of xs w))"

text \<open>
  \<open>%a\<close> and \<open>%b\<close>: every name has three letters; the value is the index of the lowered
  name in the locale's list (the month list starts with an empty entry, which no three
  letters equal, so that January has index 1).
\<close>

definition re_name :: "string list \<Rightarrow> string \<Rightarrow> (nat \<times> string) option" where
  "re_name names s =
     (case s of
        a # b # c # r \<Rightarrow> map_option (\<lambda>i. (i, r)) (index_of names (lower [a, b, c]))
      | _ \<Rightarrow> None)"

text \<open>
  \<open>%z\<close>, the pattern: sign, two digits, an optional colon, minutes, and optionally
  seconds (after an optional colon) with an optional fraction of one to six digits. The
  optional parts are greedy. The result keeps what the later processing reads.
\<close>

record zmatch =
  z_neg :: bool
  z_hours :: nat
  z_colon1 :: bool
  z_minutes :: nat
  z_seconds :: "(bool \<times> nat) option"
  z_fraction :: string

definition is_0_5 :: "char \<Rightarrow> bool" where
  "is_0_5 c \<longleftrightarrow> is_dec c \<and> digit_val c \<le> 5"

definition re_opt_colon :: "string \<Rightarrow> bool \<times> string" where
  "re_opt_colon s = (case s of a # r \<Rightarrow> if a = CHR '':'' then (True, r) else (False, s) | [] \<Rightarrow> (False, s))"

text \<open>\<open>(\.\d{1,6})?\<close>: the digits of the fraction (empty when the group does not match).\<close>

definition re_fraction :: "string \<Rightarrow> string \<times> string" where
  "re_fraction s =
     (case s of
        a # r \<Rightarrow>
          if a = CHR ''.'' \<and> takeWhile is_dec (take 6 r) \<noteq> []
          then (takeWhile is_dec (take 6 r), drop (length (takeWhile is_dec (take 6 r))) r)
          else ([], s)
      | [] \<Rightarrow> ([], s))"

text \<open>\<open>(:?[0-5]\d(\.\d{1,6})?)?\<close>\<close>

definition re_zseconds :: "string \<Rightarrow> (bool \<times> nat) option \<times> string \<times> string" where
  "re_zseconds s =
     (let (colon2, r) = re_opt_colon s
      in case r of
           a # b # r' \<Rightarrow>
             if is_0_5 a \<and> is_dec b
             then (let (f, r'') = re_fraction r' in (Some (colon2, digits_to_nat [a, b]), f, r''))
             else (None, [], s)
         | _ \<Rightarrow> (None, [], s))"

definition re_z :: "string \<Rightarrow> (zmatch option \<times> string) option" where
  "re_z s =
     (case s of
        sg # h1 # h2 # r \<Rightarrow>
          if (sg = CHR ''+'' \<or> sg = CHR ''-'') \<and> is_dec h1 \<and> is_dec h2
          then
            (let (colon1, r1) = re_opt_colon r
             in case r1 of
                  m1 # m2 # r2 \<Rightarrow>
                    if is_0_5 m1 \<and> is_dec m2
                    then
                      (let (secs, f, r3) = re_zseconds r2
                       in Some (Some \<lparr>z_neg = (sg = CHR ''-''), z_hours = digits_to_nat [h1, h2],
                                       z_colon1 = colon1, z_minutes = digits_to_nat [m1, m2],
                                       z_seconds = secs, z_fraction = f\<rparr>, r3))
                    else None
                | _ \<Rightarrow> None)
          else if sg = CHR ''Z'' then Some (None, h1 # h2 # r) else None
      | sg # r \<Rightarrow> if sg = CHR ''Z'' then Some (None, r) else None
      | [] \<Rightarrow> None)"

text \<open>
  \<open>%z\<close>, the processing of the matched text: \<open>Z\<close> is offset 0; a colon after the hours
  must come with a colon before the seconds and the other way round (\<open>ValueError\<close>
  otherwise); the offset in microseconds takes the sign; \<open>timezone\<close> refuses an offset
  of 24 hours or more.
\<close>

definition z_offset :: "zmatch option \<Rightarrow> int option" where
  "z_offset zm =
     (case zm of
        None \<Rightarrow> Some 0
      | Some z \<Rightarrow>
          if (case z_seconds z of None \<Rightarrow> False | Some (colon2, ss) \<Rightarrow> colon2 \<noteq> z_colon1 z)
          then None
          else
            let ss = (case z_seconds z of None \<Rightarrow> 0 | Some (colon2, ss) \<Rightarrow> ss);
                gmtoff = z_hours z * 60 * 60 + z_minutes z * 60 + ss;
                gmtoff_fraction =
                  digits_to_nat (z_fraction z @ replicate (6 - length (z_fraction z)) CHR ''0'');
                total = int (gmtoff * 1000000 + gmtoff_fraction)
            in if total < 86400000000 then Some (if z_neg z then - total else total) else None)"

text \<open>
  The \<open>datetime\<close> constructor: \<open>ValueError\<close> on a year outside 1..9999, a day the month
  does not have, a second above 59.
\<close>

definition make_datetime ::
  "nat \<Rightarrow> nat \<Rightarrow> nat \<Rightarrow> nat \<Rightarrow> nat \<Rightarrow> nat \<Rightarrow> int option \<Rightarrow> datetime option" where
  "make_datetime y m d hh mm ss tz =
     (if valid_date y m d \<and> hh \<le> 23 \<and> mm \<le> 59 \<and> ss \<le> 59
      then Some \<lparr>year = y, month = m, day = d, hour = hh, minute = mm, second = ss,
                 microsecond = 0, tzinfo = tz\<rparr>
      else None)"

text \<open>The end of a format: any input left over is a \<open>ValueError\<close>.\<close>

definition re_end :: "string \<Rightarrow> unit option" where
  "re_end s = (if s = [] then Some () else None)"

datatype format = Fmt_iso | Fmt_rfc822 | Fmt_date

text \<open>
  \<open>strptime value fmt\<close> for the three formats of \<open>parse_datetime\<close>:
  \<open>%Y-%m-%dT%H:%M:%S%z\<close>, \<open>%a, %d %b %Y %H:%M:%S %z\<close> and \<open>%Y-%m-%d\<close>.
  \<open>None\<close> is a raised \<open>ValueError\<close>.
\<close>

fun strptime :: "string \<Rightarrow> format \<Rightarrow> datetime option" where
  "strptime s Fmt_iso =
     do {
       (y, s) \<leftarrow> re_year s;
       s \<leftarrow> re_lit CHR ''-'' s;
       (m, s) \<leftarrow> re_month s;
       s \<leftarrow> re_lit CHR ''-'' s;
       (d, s) \<leftarrow> re_day s;
       s \<leftarrow> re_lit CHR ''T'' s;
       (hh, s) \<leftarrow> re_hour s;
       s \<leftarrow> re_lit CHR '':'' s;
       (mm, s) \<leftarrow> re_minute s;
       s \<leftarrow> re_lit CHR '':'' s;
       (ss, s) \<leftarrow> re_second s;
       (z, s) \<leftarrow> re_z s;
       _ \<leftarrow> re_end s;
       off \<leftarrow> z_offset z;
       make_datetime y m d hh mm ss (Some off)
     }"
| "strptime s Fmt_rfc822 =
     do {
       (wd, s) \<leftarrow> re_name a_weekday s;
       s \<leftarrow> re_lit CHR '','' s;
       s \<leftarrow> re_space s;
       (d, s) \<leftarrow> re_day s;
       s \<leftarrow> re_space s;
       (m, s) \<leftarrow> re_name a_month s;
       s \<leftarrow> re_space s;
       (y, s) \<leftarrow> re_year s;
       s \<leftarrow> re_space s;
       (hh, s) \<leftarrow> re_hour s;
       s \<leftarrow> re_lit CHR '':'' s;
       (mm, s) \<leftarrow> re_minute s;
       s \<leftarrow> re_lit CHR '':'' s;
       (ss, s) \<leftarrow> re_second s;
       s \<leftarrow> re_space s;
       (z, s) \<leftarrow> re_z s;
       _ \<leftarrow> re_end s;
       off \<leftarrow> z_offset z;
       make_datetime y m d hh mm ss (Some off)
     }"
| "strptime s Fmt_date =
     do {
       (y, s) \<leftarrow> re_year s;
       s \<leftarrow> re_lit CHR ''-'' s;
       (m, s) \<leftarrow> re_month s;
       s \<leftarrow> re_lit CHR ''-'' s;
       (d, s) \<leftarrow> re_day s;
       _ \<leftarrow> re_end s;
       make_datetime y m d 0 0 0 None
     }"

section \<open>The Date Normalizer\<close>

text \<open>The loop over the formats: the first that parses wins, a \<open>ValueError\<close> moves on.\<close>

fun try_formats :: "string \<Rightarrow> format list \<Rightarrow> datetime option" where
  "try_formats v [] = None"
| "try_formats v (fmt # fmts) =
     (case strptime v fmt of Some parsed \<Rightarrow> Some parsed | None \<Rightarrow> try_formats v fmts)"

definition parse_datetime :: "string \<Rightarrow> error + datetime option" where
  "parse_datetime v =
     (if v = [] then Inr None
      else if isdigit v then
        (case py_int v of
           Inl e \<Rightarrow> Inl e
         | Inr n \<Rightarrow> (case utcfromtimestamp n of Inl e \<Rightarrow> Inl e | Inr parsed \<Rightarrow> Inr (Some parsed)))
      else Inr (try_formats v [Fmt_iso, Fmt_rfc822, Fmt_date]))"

definition normalize_date :: "string \<Rightarrow> error + string" where
  "normalize_date v =
     (case parse_datetime v of
        Inl e \<Rightarrow> Inl e
      | Inr None \<Rightarrow> Inr []
      | Inr (Some parsed) \<Rightarrow>
          if isdigit v \<or> CHR ''T'' \<in> set v \<or> CHR '':'' \<in> set v
          then Inr (isoformat parsed)
          else Inr (date_isoformat parsed))"

section \<open>The Transform stage\<close>

fun transform_loop :: "JobRecord list \<Rightarrow> JobRecord list \<Rightarrow> error + JobRecord list" where
  "transform_loop cleaned [] = Inr cleaned"
| "transform_loop cleaned (r # records) =
     (case normalize_date (date_posted r) of
        Inl e \<Rightarrow> Inl e
      | Inr d \<Rightarrow>
          transform_loop
            (cleaned @
             [\<lparr>source = source r, source_id = source_id r, title = strip (title r),
               company = strip (company r), location = strip (location r), url = strip (url r),
               tags = strip (tags r), date_posted = d, salary = strip (salary r),
               description = strip (description r)\<rparr>])
            records)"

definition transform :: "JobRecord list \<Rightarrow> error + JobRecord list" where
  "transform records = transform_loop [] records"

section \<open>The Filter stage\<close>

text \<open>
  The environment of \<open>filter_jobs\<close>: the clock, read by \<open>datetime.utcnow()\<close> as \<open>now\<close>
  microseconds after the epoch, and the local zone of the process, taken as a fixed
  offset of \<open>tz\<close> seconds east of UTC, which \<open>timestamp()\<close> applies to a naive value.
  Time stamps are exact counts of microseconds (Python rounds them to a float).
\<close>

definition utcnow :: "nat \<Rightarrow> error + datetime" where
  "utcnow now =
     (case utcfromtimestamp (now div 1000000) of
        Inl e \<Rightarrow> Inl e
      | Inr dt \<Rightarrow> Inr (dt\<lparr>microsecond := now mod 1000000\<rparr>))"

text \<open>
  \<open>local u\<close>: the local wall clock, as a count of seconds, at the UTC count \<open>u\<close>;
  \<open>ValueError\<close> when its year leaves 1..9999.
\<close>

definition local :: "int \<Rightarrow> int \<Rightarrow> error + int" where
  "local tz u =
     (if 86400 \<le> u + tz \<and> u + tz < 3652060 * 86400 then Inr (u + tz)
      else Inl (ValueError ''year is out of range''))"

text \<open>\<open>local_to_seconds\<close> of a naive value with \<open>fold = 0\<close>: solves \<open>t = local u\<close> for \<open>u\<close>.\<close>

definition solve_fold :: "int \<Rightarrow> int \<Rightarrow> int \<Rightarrow> int \<Rightarrow> int \<Rightarrow> error + int" where
  "solve_fold tz t u1 t1 b =
     (case local tz (t - b) of
        Inl e \<Rightarrow> Inl e
      | Inr t2 \<Rightarrow>
          if t2 = t then Inr (t - b) else if t1 = t then Inr u1 else Inr (max u1 (t - b)))"

definition local_to_seconds :: "int \<Rightarrow> int \<Rightarrow> error + int" where
  "local_to_seconds tz t =
     (case local tz t of
        Inl e \<Rightarrow> Inl e
      | Inr lt \<Rightarrow>
          (let a = lt - t; u1 = t - a
           in (case local tz u1 of
                 Inl e \<Rightarrow> Inl e
               | Inr t1 \<Rightarrow>
                   if t1 = t
                   then
                     (case local tz (u1 - 86400) of
                        Inl e \<Rightarrow> Inl e
                      | Inr lt2 \<Rightarrow>
                          if a = lt2 - (u1 - 86400) then Inr u1
                          else solve_fold tz t u1 t1 (lt2 - (u1 - 86400)))
                   else solve_fold tz t u1 t1 (t1 - u1))))"

text \<open>
  \<open>dt.timestamp()\<close> in microseconds: a naive value is read in the local zone, an aware
  value is its distance from the epoch.
\<close>

definition timestamp :: "int \<Rightarrow> datetime \<Rightarrow> error + int" where
  "timestamp tz dt =
     (case tzinfo dt of
        None \<Rightarrow>
          (case local_to_seconds tz (utc_to_seconds dt) of
             Inl e \<Rightarrow> Inl e
           | Inr u \<Rightarrow> Inr ((u - epoch) * 1000000 + int (microsecond dt)))
      | Some off \<Rightarrow> Inr ((utc_to_seconds dt - epoch) * 1000000 + int (microsecond dt) - off))"

definition title_matches :: "string \<Rightarrow> string list \<Rightarrow> bool" where
  "title_matches t lowered_titles = list_ex (\<lambda>search. contains (lower t) search) lowered_titles"

fun filter_loop ::
  "int \<Rightarrow> int \<Rightarrow> string list \<Rightarrow> JobRecord list \<Rightarrow> JobRecord list \<Rightarrow> error + JobRecord list" where
  "filter_loop tz cutoff lowered_titles filtered [] = Inr filtered"
| "filter_loop tz cutoff lowered_titles filtered (r # records) =
     (if lowered_titles \<noteq> [] \<and> \<not> title_matches (title r) lowered_titles
      then filter_loop tz cutoff lowered_titles filtered records
      else
        (case parse_datetime (date_posted r) of
           Inl e \<Rightarrow> Inl e
         | Inr None \<Rightarrow> filter_loop tz cutoff lowered_titles filtered records
         | Inr (Some parsed) \<Rightarrow>
             (case timestamp tz parsed of
                Inl e \<Rightarrow> Inl e
              | Inr ts \<Rightarrow>
                  if ts < cutoff then filter_loop tz cutoff lowered_titles filtered records
                  else filter_loop tz cutoff lowered_titles (filtered @ [r]) records)))"

definition filter_jobs ::
  "int \<Rightarrow> nat \<Rightarrow> JobRecord list \<Rightarrow> string list \<Rightarrow> error + JobRecord list" where
  "filter_jobs tz now records titles =
     (case utcnow now of
        Inl e \<Rightarrow> Inl e
      | Inr n \<Rightarrow>
          (case timestamp tz n of
             Inl e \<Rightarrow> Inl e
           | Inr ts \<Rightarrow>
               filter_loop tz (ts - 24 * 60 * 60 * 1000000) (map lower titles) [] records))"

section \<open>The sinks\<close>

text \<open>
  A path holds a tabular file (its rows), a line-delimited file (one record per line) or
  a database (the rows of its table \<open>jobs\<close>, whose primary key is \<open>(source, source_id)\<close>).
\<close>

datatype content =
  Csv_file "string list list" | Jsonl_file "JobRecord list" | Sqlite_db "JobRecord list"

definition field_names :: "string list" where
  "field_names = [''source'', ''source_id'', ''title'', ''company'', ''location'', ''url'', ''tags'',
                  ''date_posted'', ''salary'', ''description'']"

definition field_values :: "JobRecord \<Rightarrow> string list" where
  "field_values r = [source r, source_id r, title r, company r, location r, url r, tags r,
                     date_posted r, salary r, description r]"

definition load_to_csv :: "JobRecord list \<Rightarrow> string \<Rightarrow> (string \<rightharpoonup> content) \<Rightarrow> (string \<rightharpoonup> content)" where
  "load_to_csv records path fs = fs(path \<mapsto> Csv_file (field_names # map field_values records))"

definition load_to_jsonl :: "JobRecord list \<Rightarrow> string \<Rightarrow> (string \<rightharpoonup> content) \<Rightarrow> (string \<rightharpoonup> content)" where
  "load_to_jsonl records path fs = fs(path \<mapsto> Jsonl_file records)"

definition primary_key :: "JobRecord \<Rightarrow> string \<times> string" where
  "primary_key r = (source r, source_id r)"

text \<open>\<open>INSERT OR REPLACE\<close>: the row with the same primary key goes, the new row comes.\<close>

definition insert_or_replace :: "JobRecord list \<Rightarrow> JobRecord \<Rightarrow> JobRecord list" where
  "insert_or_replace table r = filter (\<lambda>x. primary_key x \<noteq> primary_key r) table @ [r]"

definition executemany :: "JobRecord list \<Rightarrow> JobRecord list \<Rightarrow> JobRecord list" where
  "executemany table records = foldl insert_or_replace table records"

text \<open>
  \<open>load_to_sqlite\<close>: \<open>CREATE TABLE IF NOT EXISTS\<close> starts an empty table where there is
  none; a path that holds something else than a database is a \<open>DatabaseError\<close>.
\<close>

definition load_to_sqlite ::
  "JobRecord list \<Rightarrow> string \<Rightarrow> (string \<rightharpoonup> content) \<Rightarrow> error + (string \<rightharpoonup> content)" where
  "load_to_sqlite records path fs =
     (case fs path of
        None \<Rightarrow> Inr (fs(path \<mapsto> Sqlite_db (executemany [] records)))
      | Some (Sqlite_db table) \<Rightarrow> Inr (fs(path \<mapsto> Sqlite_db (executemany table records)))
      | Some _ \<Rightarrow> Inl DatabaseError)"

section \<open>The pipeline\<close>

datatype portal = RemotivePortal | RemoteOkPortal | WeWorkRemotelyPortal

definition PORTALS :: "(string \<times> portal) list" where
  "PORTALS = [(''remotive'', RemotivePortal), (''remoteok'', RemoteOkPortal),
              (''weworkremotely'', WeWorkRemotelyPortal)]"

text \<open>
  The world \<open>run_etl\<close> acts on: the adapters whose \<open>extract\<close> was called, in order, the
  files, and the lines printed. What an adapter's \<open>extract\<close> returns or raises is given
  by the feed: the parameter \<open>extract\<close>.
\<close>

record world =
  extracted :: "portal list"
  files :: "string \<rightharpoonup> content"
  printed :: "string list"

fun extract_loop ::
  "(portal \<Rightarrow> error + JobRecord list) \<Rightarrow> string list \<Rightarrow> JobRecord list \<Rightarrow> world
     \<Rightarrow> world \<times> (error + JobRecord list)" where
  "extract_loop extract [] records w = (w, Inr records)"
| "extract_loop extract (name # selected) records w =
     (case map_of PORTALS name of
        None \<Rightarrow> (w, Inl (ValueError (''Unknown portal: '' @ name)))
      | Some p \<Rightarrow>
          (case extract p of
             Inl e \<Rightarrow> (w\<lparr>extracted := extracted w @ [p]\<rparr>, Inl e)
           | Inr rs \<Rightarrow>
               extract_loop extract selected (records @ rs) (w\<lparr>extracted := extracted w @ [p]\<rparr>)))"

definition run_etl ::
  "(portal \<Rightarrow> error + JobRecord list) \<Rightarrow> int \<Rightarrow> nat \<Rightarrow> string list \<Rightarrow> string \<Rightarrow> string
     \<Rightarrow> string list \<Rightarrow> world \<Rightarrow> world \<times> (error + int)" where
  "run_etl extract tz now selected output fmt titles w =
     (case extract_loop extract selected [] w of
        (w1, Inl e) \<Rightarrow> (w1, Inl e)
      | (w1, Inr records) \<Rightarrow>
          (case transform records of
             Inl e \<Rightarrow> (w1, Inl e)
           | Inr cleaned \<Rightarrow>
               (case filter_jobs tz now cleaned titles of
                  Inl e \<Rightarrow> (w1, Inl e)
                | Inr filtered \<Rightarrow>
                    (case
                       (if fmt = ''csv'' then Inr (load_to_csv filtered output (files w1))
                        else if fmt = ''jsonl'' then Inr (load_to_jsonl filtered output (files w1))
                        else if fmt = ''sqlite'' then load_to_sqlite filtered output (files w1)
                        else Inl (ValueError (''Unsupported format: '' @ fmt)))
                     of
                       Inl e \<Rightarrow> (w1, Inl e)
                     | Inr fs \<Rightarrow>
                         (w1\<lparr>files := fs,
                             printed := printed w1 @
                               [''Loaded '' @ digits (length filtered) @ '' jobs to '' @ output]\<rparr>,
                          Inr 0)))))"

section \<open>Notions used in the properties\<close>

text \<open>A string carries no leading or trailing white space.\<close>

definition trimmed :: "string \<Rightarrow> bool" where
  "trimmed s \<longleftrightarrow> (case s of [] \<Rightarrow> True | c # cs \<Rightarrow> \<not> isspace c \<and> \<not> isspace (last s))"

text \<open>The record the Transform stage builds from \<open>r\<close> and the normalized date \<open>d\<close>.\<close>

definition cleaned_record :: "JobRecord \<Rightarrow> string \<Rightarrow> JobRecord" where
  "cleaned_record r d =
     \<lparr>source = source r, source_id = source_id r, title = strip (title r),
      company = strip (company r), location = strip (location r), url = strip (url r),
      tags = strip (tags r), date_posted = d, salary = strip (salary r),
      description = strip (description r)\<rparr>"

text \<open>
  The recency check of the Filter stage on one record: its date parses and its time stamp
  is not below the cutoff.
\<close>

definition passes_recency :: "int \<Rightarrow> int \<Rightarrow> JobRecord \<Rightarrow> bool" where
  "passes_recency tz cutoff r =
     (case parse_datetime (date_posted r) of
        Inr (Some parsed) \<Rightarrow> (case timestamp tz parsed of Inr ts \<Rightarrow> \<not> ts < cutoff | Inl e \<Rightarrow> False)
      | _ \<Rightarrow> False)"

text \<open>A string ends in a decimal digit.\<close>

definition ends_in_digit :: "string \<Rightarrow> bool" where
  "ends_in_digit s \<longleftrightarrow> s \<noteq> [] \<and> is_dec (last s)"

text \<open>
  The fields of a date-time are those of a moment of the calendar, without microseconds
  and with an offset of less than a day.
\<close>

definition wf_datetime :: "datetime \<Rightarrow> bool" where
  "wf_datetime dt \<longleftrightarrow>
     valid_date (year dt) (month dt) (day dt) \<and> hour dt \<le> 23 \<and> minute dt \<le> 59
     \<and> second dt \<le> 59 \<and> microsecond dt = 0
     \<and> (case tzinfo dt of None \<Rightarrow> True | Some off \<Rightarrow> abs off < 86400000000)"

text \<open>A character other than \<open>T\<close> and the colon, the two time indicators.\<close>

definition date_char :: "char \<Rightarrow> bool" where
  "date_char c \<longleftrightarrow> c \<noteq> CHR ''T'' \<and> c \<noteq> CHR '':''"

text \<open>
  Reading the date of a record raises nothing: neither \<open>parse_datetime\<close> on it nor
  \<open>timestamp\<close> on what was parsed.
\<close>

definition date_reads :: "int \<Rightarrow> JobRecord \<Rightarrow> bool" where
  "date_reads tz r =
     (case parse_datetime (date_posted r) of
        Inl e \<Rightarrow> False
      | Inr None \<Rightarrow> True
      | Inr (Some parsed) \<Rightarrow> (case timestamp tz parsed of Inl e \<Rightarrow> False | Inr ts \<Rightarrow> True))"

section \<open>Example inputs\<close>

definition no_jobs :: "portal \<Rightarrow> error + JobRecord list" where
  "no_jobs p = Inr []"

definition empty_world :: world where
  "empty_world = \<lparr>extracted = [], files = Map.empty, printed = []\<rparr>"

definition job :: "string \<Rightarrow> string \<Rightarrow> string \<Rightarrow> string \<Rightarrow> JobRecord" where
  "job src sid t d = \<lparr>source = src, source_id = sid, title = t, company = [], location = [],
     url = [], tags = [], date_posted = d, salary = [], description = []\<rparr>"

section \<open>Facts about strings and digits\<close>

lemma trimmed_iff: "trimmed s \<longleftrightarrow> s = [] \<or> (\<not> isspace (hd s) \<and> \<not> isspace (last s))"
  by (cases s) (simp_all add: trimmed_def)

lemma trimmed_strip: "trimmed (strip s)"
proof -
  let ?t = "dropWhile isspace s"
  let ?u = "dropWhile isspace (rev ?t)"
  show ?thesis
  proof (cases "?u = []")
    case True
    then show ?thesis by (simp add: trimmed_iff strip_def)
  next
    case False
    then have hu: "\<not> isspace (hd ?u)" by (rule hd_dropWhile)
    have "?t = [] \<Longrightarrow> ?u = []" by (simp only: rev.simps dropWhile.simps)
    with False have t: "?t \<noteq> []" by blast
    then have ht: "\<not> isspace (hd ?t)" by (rule hd_dropWhile)
    obtain p where p: "rev ?t = p @ ?u"
      using takeWhile_dropWhile_id[of isspace "rev ?t"] by metis
    from p False have "last (rev ?t) = last ?u" by (metis last_appendR)
    with t have "last ?u = hd ?t" by (simp add: last_rev)
    with hu ht False show ?thesis
      by (simp add: trimmed_iff strip_def hd_rev last_rev)
  qed
qed

lemma strip_trimmed: "trimmed t \<Longrightarrow> strip t = t"
proof (cases t)
  case Nil
  then show ?thesis by (simp add: strip_def)
next
  case (Cons c cs)
  assume "trimmed t"
  with Cons have c: "\<not> isspace c" and l: "\<not> isspace (last t)" by (simp_all add: trimmed_def)
  from c Cons have 1: "dropWhile isspace t = t" by simp
  from Cons obtain x xs where r: "rev t = x # xs" by (cases "rev t") auto
  with Cons have "x = last t" by (metis hd_rev list.sel(1))
  with l have "dropWhile isspace (x # xs) = x # xs" by simp
  with r have "dropWhile isspace (rev t) = rev t" by (simp only:)
  with 1 show ?thesis by (simp add: strip_def)
qed

lemma strip_idem: "strip (strip s) = strip s"
  by (rule strip_trimmed) (rule trimmed_strip)

lemma is_dec_not_space: "is_dec c \<Longrightarrow> \<not> isspace c"
  by (auto simp: is_dec_def isspace_def)

lemma is_dec_digit_char: "d < 10 \<Longrightarrow> is_dec (digit_char d)"
  by (simp add: is_dec_def digit_char_def)

lemma digits_dec: "list_all is_dec (digits n) \<and> digits n \<noteq> []"
proof (induction n rule: digits.induct)
  case (1 n)
  show ?case
  proof (cases "n < 10")
    case True
    then show ?thesis by (subst digits.simps, subst digits.simps) (simp add: is_dec_digit_char)
  next
    case False
    with 1 show ?thesis by (subst digits.simps, subst digits.simps) (simp add: is_dec_digit_char)
  qed
qed

lemma zfill_dec: "list_all is_dec (zfill w n)" "zfill w n \<noteq> []"
proof -
  have "is_dec CHR ''0''" by (simp add: is_dec_def)
  then show "list_all is_dec (zfill w n)"
    using digits_dec[of n] by (auto simp: zfill_def list_all_iff)
  show "zfill w n \<noteq> []" using digits_dec[of n] by (simp add: zfill_def)
qed

lemma hd_zfill: "is_dec (hd (zfill w n @ r))"
  using zfill_dec[of w n] by (cases "zfill w n") (simp_all)

lemma last_zfill: "is_dec (last (r @ zfill w n))"
  using zfill_dec[of w n] by (simp add: list_all_iff)

lemma ends_in_digit_zfill: "ends_in_digit (zfill w n)"
  using last_zfill[of "[]" w n] by (simp add: ends_in_digit_def zfill_dec)

lemma ends_in_digit_append: "ends_in_digit s \<Longrightarrow> ends_in_digit (r @ s)"
  by (simp add: ends_in_digit_def)

lemma ends_in_digit_append_opt:
  "ends_in_digit a \<Longrightarrow> t = [] \<or> ends_in_digit t \<Longrightarrow> ends_in_digit (a @ t)"
  by (auto simp: ends_in_digit_def)

lemma ends_in_digit_Cons: "ends_in_digit s \<Longrightarrow> ends_in_digit (c # s)"
  by (simp add: ends_in_digit_def)

lemma py_int_short:
  "length v \<le> max_str_digits \<Longrightarrow>
   py_int v = (if v \<noteq> [] \<and> list_all is_dec v then Inr (digits_to_nat v)
               else Inl (ValueError ''invalid literal for int() with base 10''))"
proof -
  assume "length v \<le> max_str_digits"
  moreover have "length (takeWhile is_dec v) \<le> length v" by (rule length_takeWhile_le)
  ultimately have "\<not> length (takeWhile is_dec v) > max_str_digits" by simp
  then show ?thesis by (simp add: py_int_def)
qed

lemma py_int_Inr: "py_int v = Inr n \<Longrightarrow> n = digits_to_nat v"
  by (auto simp: py_int_def split: if_splits)

section \<open>Evaluating the model on concrete inputs\<close>

lemma eq_char_of_iff: "c = char_of (n::nat) \<longleftrightarrow> of_char c = n mod 256"
  using char_of_eq_iff[of n c] by (auto simp: take_bit_eq_mod)

lemma replicate_numeral: "replicate (numeral k) x = x # replicate (pred_numeral k) x"
  by (simp add: numeral_eq_Suc)

lemmas clock_eval = utcnow_def utcfromtimestamp_def ord_to_ymd_def Let_def days_before_month_def
  days_in_month_def is_leap_def upt_rec

lemmas strptime_eval = re_year_def re_lit_def re_month_def re_day_def re_hour_def re_minute_def
  re_second_def re_num_def re_z_def re_opt_colon_def re_zseconds_def re_fraction_def re_end_def
  re_space_def re_name_def a_weekday_def a_month_def lower_def isspace_def
  z_offset_def make_datetime_def valid_date_def days_in_month_def is_leap_def is_dec_def
  is_0_5_def digit_val_def digits_to_nat_def lower_char_def Let_def replicate_numeral
  eq_char_of_iff

lemmas timestamp_eval = timestamp_def utc_to_seconds_def ymd_to_ord_def days_before_year_def
  days_before_month_def days_in_month_def is_leap_def upt_rec epoch_def local_to_seconds_def
  local_def solve_fold_def Let_def

text \<open>The clock reads 2024-06-01T00:00:00 UTC.\<close>

lemma utcnow_example:
  "utcnow 1717200000000000 =
     Inr \<lparr>year = 2024, month = 6, day = 1, hour = 0, minute = 0, second = 0, microsecond = 0,
          tzinfo = None\<rparr>"
  by (simp add: clock_eval)

lemma timestamp_example:
  "timestamp 0 \<lparr>year = 2024, month = 6, day = 1, hour = 0, minute = 0, second = 0,
      microsecond = 0, tzinfo = None\<rparr> = Inr 1717200000000000"
  by (simp add: timestamp_eval)

lemma parse_datetime_example:
  "parse_datetime ''2024-05-31T23:00:00+00:00'' =
     Inr (Some \<lparr>year = 2024, month = 5, day = 31, hour = 23, minute = 0, second = 0,
                microsecond = 0, tzinfo = Some 0\<rparr>)"
  by (simp add: parse_datetime_def isdigit_def isdigit_char_def strptime_eval)

lemma filter_jobs_example:
  "filter_jobs 0 1717200000000000
     [job ''remotive'' ''7'' ''Senior Engineer'' ''2024-05-31T23:00:00+00:00'',
      job ''remotive'' ''8'' ''Data Analyst'' ''2024-05-31T23:00:00+00:00''] [''engineer'']
   = Inr [job ''remotive'' ''7'' ''Senior Engineer'' ''2024-05-31T23:00:00+00:00'']"
  by (simp add: filter_jobs_def utcnow_example parse_datetime_example job_def title_matches_def
      lower_def lower_char_def timestamp_eval eq_char_of_iff)

section \<open>The upsert sink\<close>

lemma insert_or_replace_distinct:
  "distinct (map primary_key t) \<Longrightarrow> distinct (map primary_key (insert_or_replace t r))"
  by (auto simp: insert_or_replace_def distinct_map_filter)

lemma executemany_snoc: "executemany t (rs @ [r]) = insert_or_replace (executemany t rs) r"
  by (simp add: executemany_def)

lemma executemany_append: "executemany t (rs @ qs) = executemany (executemany t rs) qs"
  by (simp add: executemany_def)

lemma executemany_distinct:
  "distinct (map primary_key t) \<Longrightarrow> distinct (map primary_key (executemany t rs))"
  by (induction rs rule: rev_induct) (simp_all add: executemany_def insert_or_replace_distinct)

lemma filter_key_insert_or_replace:
  "filter (\<lambda>x. primary_key x = k) (insert_or_replace t r) =
     (if primary_key r = k then [r] else filter (\<lambda>x. primary_key x = k) t)"
  by (auto simp: insert_or_replace_def filter_empty_conv intro: filter_cong)

lemma filter_key_executemany:
  "filter (\<lambda>x. primary_key x = k) (executemany t rs) =
     (if filter (\<lambda>x. primary_key x = k) rs = [] then filter (\<lambda>x. primary_key x = k) t
      else [last (filter (\<lambda>x. primary_key x = k) rs)])"
proof (induction rs rule: rev_induct)
  case Nil
  show ?case by (simp add: executemany_def)
next
  case (snoc r rs)
  show ?case
    using snoc.IH by (simp add: executemany_snoc filter_key_insert_or_replace)
qed

text \<open>
  Claim C9. Writing to the upsert sink is idempotent on the natural key: after two loads
  into the same database, whose table held no key twice, the table holds no key twice,
  and for every record written in either load there is exactly one row with its
  \<open>(source, source_id)\<close>, namely the record written last under that key.
\<close>

theorem upsert_last_write_wins:
  assumes "fs path = None \<or> (\<exists>table. fs path = Some (Sqlite_db table) \<and> distinct (map primary_key table))"
    and "r \<in> set (first_run @ second_run)"
  shows "\<exists>fs1 fs2 rows.
           load_to_sqlite first_run path fs = Inr fs1 \<and>
           load_to_sqlite second_run path fs1 = Inr fs2 \<and>
           fs2 path = Some (Sqlite_db rows) \<and>
           distinct (map primary_key rows) \<and>
           filter (\<lambda>x. primary_key x = primary_key r) rows =
             [last (filter (\<lambda>x. primary_key x = primary_key r) (first_run @ second_run))]"
proof -
  obtain table where t: "load_to_sqlite first_run path fs
        = Inr (fs(path \<mapsto> Sqlite_db (executemany table first_run)))"
      and d: "distinct (map primary_key table)"
    using assms(1) by (auto simp: load_to_sqlite_def)
  let ?fs1 = "fs(path \<mapsto> Sqlite_db (executemany table first_run))"
  let ?rows = "executemany table (first_run @ second_run)"
  have 2: "load_to_sqlite second_run path ?fs1 = Inr (?fs1(path \<mapsto> Sqlite_db ?rows))"
    by (simp add: load_to_sqlite_def executemany_append)
  have ne: "filter (\<lambda>x. primary_key x = primary_key r) (first_run @ second_run) \<noteq> []"
    using assms(2) by (auto simp: filter_empty_conv)
  have 3: "filter (\<lambda>x. primary_key x = primary_key r) ?rows =
             [last (filter (\<lambda>x. primary_key x = primary_key r) (first_run @ second_run))]"
    using ne by (simp only: filter_key_executemany if_False)
  show ?thesis
    using t 2 3 executemany_distinct[OF d, of "first_run @ second_run"] by auto
qed

text \<open>An instance: job 7 of one source is written in a first run and again in a second.\<close>

theorem upsert_last_write_wins_witness:
  "\<exists>fs1 fs2 rows.
     load_to_sqlite [job ''remotive'' ''7'' ''Engineer'' [], job ''remotive'' ''8'' ''Analyst'' []] ''jobs.sqlite3'' Map.empty = Inr fs1 \<and>
     load_to_sqlite [job ''remotive'' ''7'' ''Senior Engineer'' []] ''jobs.sqlite3'' fs1 = Inr fs2 \<and>
     fs2 ''jobs.sqlite3'' = Some (Sqlite_db rows) \<and>
     distinct (map primary_key rows) \<and>
     filter (\<lambda>x. primary_key x = (''remotive'', ''7'')) rows = [job ''remotive'' ''7'' ''Senior Engineer'' []]"
  using upsert_last_write_wins [of Map.empty "''jobs.sqlite3''" "job ''remotive'' ''7'' ''Engineer'' []"
      "[job ''remotive'' ''7'' ''Engineer'' [], job ''remotive'' ''8'' ''Analyst'' []]"
      "[job ''remotive'' ''7'' ''Senior Engineer'' []]"]
  by (simp add: primary_key_def job_def)

section \<open>The calendar\<close>

lemma dbm_values:
  "days_before_month y 1 = 0"
  "days_before_month y 2 = 31"
  "days_before_month y 3 = 31 + days_in_month y 2"
  "days_before_month y 4 = 62 + days_in_month y 2"
  "days_before_month y 5 = 92 + days_in_month y 2"
  "days_before_month y 6 = 123 + days_in_month y 2"
  "days_before_month y 7 = 153 + days_in_month y 2"
  "days_before_month y 8 = 184 + days_in_month y 2"
  "days_before_month y 9 = 215 + days_in_month y 2"
  "days_before_month y 10 = 245 + days_in_month y 2"
  "days_before_month y 11 = 276 + days_in_month y 2"
  "days_before_month y 12 = 306 + days_in_month y 2"
  "days_before_month y (Suc 0) = 0"
  by (simp_all add: days_before_month_def days_in_month_def upt_rec)

lemma dim_values:
  "days_in_month y 1 = 31" "days_in_month y 3 = 31" "days_in_month y 4 = 30"
  "days_in_month y 5 = 31" "days_in_month y 6 = 30" "days_in_month y 7 = 31"
  "days_in_month y 8 = 31" "days_in_month y 9 = 30" "days_in_month y 10 = 31"
  "days_in_month y 11 = 30" "days_in_month y 12 = 31"
  "28 \<le> days_in_month y 2" "days_in_month y 2 \<le> 29" "days_in_month y (Suc 0) = 31"
  by (simp_all add: days_in_month_def)

text \<open>The month and day of the day \<open>n\<close> of a year, counted from 0.\<close>

lemma month_of_yday:
  assumes n: "n < 337 + days_in_month y 2"
    and m: "m = (n + 50) div 32"
    and p: "p = days_before_month y m"
  shows "if p > n
         then 1 \<le> m - 1 \<and> m - 1 \<le> 12
            \<and> days_before_month y (m - 1) = p - days_in_month y (m - 1)
            \<and> days_in_month y (m - 1) \<le> p
            \<and> p - days_in_month y (m - 1) \<le> n \<and> n < p
         else 1 \<le> m \<and> m \<le> 12 \<and> p \<le> n \<and> n < p + days_in_month y m"
proof -
  have lo: "32 * m \<le> n + 50" and hi: "n + 50 < 32 * m + 32"
    unfolding m by (simp_all add: div_times_less_eq_dividend dividend_less_times_div)
  have "n < 366" using n dim_values(13)[of y] by simp
  with lo hi have "1 \<le> m \<and> m \<le> 12" by simp
  then have "m = 1 \<or> m = 2 \<or> m = 3 \<or> m = 4 \<or> m = 5 \<or> m = 6 \<or> m = 7 \<or> m = 8
    \<or> m = 9 \<or> m = 10 \<or> m = 11 \<or> m = 12" by arith
  then show ?thesis
    using lo hi n dim_values(12,13)[of y] unfolding p
    by (elim disjE) (simp_all add: dbm_values dim_values(1-11,14))
qed


lemma dby_decomp:
  assumes "b \<le> 3" "c \<le> 24" "e \<le> 3"
  shows "days_before_year (400 * a + 100 * b + 4 * c + e + 1)
         = 146097 * a + 36524 * b + 1461 * c + 365 * e"
proof -
  let ?Y = "400 * a + 100 * b + 4 * c + e"
  have d4: "?Y div 4 = 100 * a + 25 * b + c"
    using assms by (intro div_nat_eqI) simp_all
  have d100: "?Y div 100 = 4 * a + b"
    using assms by (intro div_nat_eqI) simp_all
  have d400: "?Y div 400 = a"
    using assms by (intro div_nat_eqI) simp_all
  show ?thesis
    by (simp add: days_before_year_def d4 d100 d400)
qed

lemma mod_zero_small:
  fixes x k :: nat
  assumes "0 < x" "x \<le> k"
  shows "x mod k = 0 \<longleftrightarrow> x = k"
proof (cases "x = k")
  case True
  then show ?thesis by simp
next
  case False
  with assms have "x < k" by simp
  then have "x mod k = x" by simp
  with assms(1) False show ?thesis by simp
qed

lemma leap_decomp:
  assumes "b \<le> 3" "c \<le> 24" "e \<le> 3"
  shows "is_leap (400 * a + 100 * b + 4 * c + e + 1) \<longleftrightarrow> e = 3 \<and> (c \<noteq> 24 \<or> b = 3)"
proof -
  let ?Y = "400 * a + 100 * b + 4 * c + e + 1"
  have "?Y = 4 * (100 * a + 25 * b + c) + (e + 1)" by simp
  then have "?Y mod 4 = (e + 1) mod 4" by (simp only: mod_mult_self4)
  moreover have "(e + 1) mod 4 = 0 \<longleftrightarrow> e + 1 = 4"
    using assms(3) by (intro mod_zero_small) simp_all
  ultimately have m4: "?Y mod 4 = 0 \<longleftrightarrow> e = 3" by simp
  have "?Y = 100 * (4 * a + b) + (4 * c + e + 1)" by simp
  then have "?Y mod 100 = (4 * c + e + 1) mod 100" by (simp only: mod_mult_self4)
  moreover have "(4 * c + e + 1) mod 100 = 0 \<longleftrightarrow> 4 * c + e + 1 = 100"
    using assms(2,3) by (intro mod_zero_small) simp_all
  moreover have "4 * c + e + 1 = 100 \<longleftrightarrow> c = 24 \<and> e = 3"
    using assms(2,3) by linarith
  ultimately have m100: "?Y mod 100 = 0 \<longleftrightarrow> c = 24 \<and> e = 3" by simp
  have "?Y = 400 * a + (100 * b + 4 * c + e + 1)" by simp
  then have "?Y mod 400 = (100 * b + 4 * c + e + 1) mod 400" by (simp only: mod_mult_self4)
  moreover have "(100 * b + 4 * c + e + 1) mod 400 = 0 \<longleftrightarrow> 100 * b + 4 * c + e + 1 = 400"
    using assms by (intro mod_zero_small) simp_all
  moreover have "100 * b + 4 * c + e + 1 = 400 \<longleftrightarrow> b = 3 \<and> c = 24 \<and> e = 3"
    using assms by linarith
  ultimately have m400: "?Y mod 400 = 0 \<longleftrightarrow> b = 3 \<and> c = 24 \<and> e = 3" by simp
  show ?thesis unfolding is_leap_def m4 m100 m400 by blast
qed

lemma year_bound:
  assumes "146097 * a + 36524 * b + 1461 * c + 365 * e \<le> 3652058"
    and "b \<le> 3" "c \<le> 24" "e \<le> (4::nat)"
  shows "400 * a + 100 * b + 4 * c + e \<le> 9998"
proof -
  from assms(1) have a: "a \<le> 24" by simp
  show ?thesis
  proof (cases "a = 24")
    case False
    with a assms show ?thesis by simp
  next
    case True
    show ?thesis
    proof (cases "b = 3")
      case False
      with True assms show ?thesis by simp
    next
      case b: True
      show ?thesis
      proof (cases "c = 24")
        case False
        with True b assms show ?thesis by simp
      next
        case c: True
        with True b assms show ?thesis by simp
      qed
    qed
  qed
qed

text \<open>The date of a day number is a date of the calendar, and it has that day number.\<close>

lemma ord_to_ymd_correct:
  assumes o1: "1 \<le> ordinal" and o2: "ordinal \<le> 3652059"
    and res: "ord_to_ymd ordinal = (y, m, d)"
  shows "valid_date y m d \<and> ymd_to_ord y m d = ordinal"
proof -
  define n0 where "n0 = ordinal - 1"
  define a where "a = n0 div 146097"
  define r1 where "r1 = n0 mod 146097"
  define b where "b = r1 div 36524"
  define r2 where "r2 = r1 mod 36524"
  define c where "c = r2 div 1461"
  define r3 where "r3 = r2 mod 1461"
  define e where "e = r3 div 365"
  define r4 where "r4 = r3 mod 365"
  have n0: "n0 = 146097 * a + r1" "r1 < 146097" by (simp_all add: a_def r1_def)
  have r1: "r1 = 36524 * b + r2" "r2 < 36524" by (simp_all add: b_def r2_def)
  have r2: "r2 = 1461 * c + r3" "r3 < 1461" by (simp_all add: c_def r3_def)
  have r3: "r3 = 365 * e + r4" "r4 < 365" by (simp_all add: e_def r4_def)
  have ord: "ordinal = n0 + 1" "n0 \<le> 3652058" using o1 o2 by (simp_all add: n0_def)
  have b4: "b \<le> 4" using n0(2) r1(1) by simp
  have c24: "c \<le> 24" using r1(2) r2(1) by simp
  have e4: "e \<le> 4" using r2(2) r3(1) by simp
  let ?Y = "400 * a + 100 * b + 4 * c + e"
  have unfolded: "ord_to_ymd ordinal =
      (if e = 4 \<or> b = 4 then (?Y + 1 - 1, 12, 31)
       else if days_before_month (?Y + 1) ((r4 + 50) div 32) > r4
         then (?Y + 1, (r4 + 50) div 32 - 1,
               r4 + 1 - (days_before_month (?Y + 1) ((r4 + 50) div 32)
                         - days_in_month (?Y + 1) ((r4 + 50) div 32 - 1)))
         else (?Y + 1, (r4 + 50) div 32, r4 + 1 - days_before_month (?Y + 1) ((r4 + 50) div 32)))"
    unfolding ord_to_ymd_def Let_def n0_def[symmetric] a_def[symmetric] r1_def[symmetric]
      b_def[symmetric] r2_def[symmetric] c_def[symmetric] r3_def[symmetric] e_def[symmetric]
      r4_def[symmetric]
    by (simp add: mult.commute)
  show ?thesis
  proof (cases "b = 4")
    case True
    with n0 r1 have "r2 = 0" by simp
    with r2 r3 have z: "c = 0" "e = 0" "r4 = 0" "r3 = 0" by simp_all
    from unfolded True res have ymd: "y = ?Y" "m = 12" "d = 31" by simp_all
    have yv: "?Y = 400 * a + 100 * 3 + 4 * 24 + 3 + 1" using True z by simp
    have dby: "days_before_year ?Y = 146097 * a + 36524 * 3 + 1461 * 24 + 365 * 3"
      unfolding yv by (rule dby_decomp) simp_all
    have leap: "is_leap ?Y" unfolding yv by (subst leap_decomp) simp_all
    have "a \<le> 23" using ord n0 r1 True z \<open>r2 = 0\<close> by simp
    then have "1 \<le> ?Y \<and> ?Y \<le> 9999" using True z by simp
    moreover have "ymd_to_ord ?Y 12 31 = ordinal"
      using dby leap ord n0 r1 True \<open>r2 = 0\<close>
      by (simp add: ymd_to_ord_def dbm_values days_in_month_def)
    ultimately show ?thesis unfolding ymd by (simp add: valid_date_def dim_values)
  next
    case b3: False
    with b4 have b3': "b \<le> 3" by simp
    show ?thesis
    proof (cases "e = 4")
      case True
      with r3 r2(2) have z: "r4 = 0" "r3 = 1460" by simp_all
      with r1(2) r2 have c23: "c \<le> 23" by simp
      from unfolded True res have ymd: "y = ?Y" "m = 12" "d = 31" by simp_all
      have yv: "?Y = 400 * a + 100 * b + 4 * c + 3 + 1" using True by simp
      have dby: "days_before_year ?Y = 146097 * a + 36524 * b + 1461 * c + 365 * 3"
        unfolding yv using b3' c23 by (intro dby_decomp) simp_all
      have leap: "is_leap ?Y" unfolding yv using b3' c23 by (subst leap_decomp) simp_all
      have "146097 * a + 36524 * b + 1461 * c + 365 * e \<le> 3652058"
        using ord n0 r1 r2 r3 by simp
      from year_bound[OF this b3' c24 e4] have "1 \<le> ?Y \<and> ?Y \<le> 9999" using True by simp
      moreover have "ymd_to_ord ?Y 12 31 = ordinal"
        using dby leap ord n0 r1 r2 z
        by (simp add: ymd_to_ord_def dbm_values days_in_month_def)
      ultimately show ?thesis unfolding ymd by (simp add: valid_date_def dim_values)
    next
      case False
      with e4 have e3: "e \<le> 3" by simp
      have dby: "days_before_year (?Y + 1) = 146097 * a + 36524 * b + 1461 * c + 365 * e"
        using b3' c24 e3 by (rule dby_decomp)
      have "146097 * a + 36524 * b + 1461 * c + 365 * e \<le> 3652058"
        using ord n0 r1 r2 r3 by simp
      from year_bound[OF this b3' c24 e4] have yr: "1 \<le> ?Y + 1 \<and> ?Y + 1 \<le> 9999" by simp
      have total: "ordinal = days_before_year (?Y + 1) + r4 + 1"
        using dby ord n0 r1 r2 r3 by simp
      have n: "r4 < 337 + days_in_month (?Y + 1) 2"
        using r3(2) dim_values(12)[of "?Y + 1"] by simp
      note mo = month_of_yday[OF n refl refl]
      show ?thesis
      proof (cases "days_before_month (?Y + 1) ((r4 + 50) div 32) > r4")
        case True
        with unfolded False b3 res
        have ymd: "y = ?Y + 1" "m = (r4 + 50) div 32 - 1"
          "d = r4 + 1 - (days_before_month (?Y + 1) ((r4 + 50) div 32)
                         - days_in_month (?Y + 1) ((r4 + 50) div 32 - 1))" by simp_all
        from mo True have
          mm: "1 \<le> m \<and> m \<le> 12"
          and pm: "days_before_month y m = days_before_month (?Y + 1) ((r4 + 50) div 32)
                     - days_in_month y m"
          and dle: "days_in_month y m \<le> days_before_month (?Y + 1) ((r4 + 50) div 32)"
          and le: "days_before_month (?Y + 1) ((r4 + 50) div 32) - days_in_month y m \<le> r4"
          and lt: "r4 < days_before_month (?Y + 1) ((r4 + 50) div 32)"
          unfolding ymd by simp_all
        define P where "P = days_before_month (?Y + 1) ((r4 + 50) div 32)"
        define D where "D = days_in_month y m"
        have dP: "d = r4 + 1 - (P - D)" using ymd(3) unfolding P_def D_def ymd(1,2) by simp
        have facts: "D \<le> P" "P - D \<le> r4" "r4 < P" "days_before_month y m = P - D"
          using dle le lt pm unfolding P_def D_def by simp_all
        have dd: "1 \<le> d \<and> d \<le> D" "P - D + d = r4 + 1" using facts dP by arith+
        have "valid_date y m d"
          using yr mm dd(1) unfolding valid_date_def D_def ymd(1) by simp
        moreover have "ymd_to_ord y m d = ordinal"
          using total dd(2) facts(4) unfolding ymd_to_ord_def ymd(1) by simp
        ultimately show ?thesis ..
      next
        case nt: False
        with unfolded False b3 res
        have ymd: "y = ?Y + 1" "m = (r4 + 50) div 32"
          "d = r4 + 1 - days_before_month (?Y + 1) ((r4 + 50) div 32)" by simp_all
        from mo nt have mm: "1 \<le> m \<and> m \<le> 12"
          and le: "days_before_month y m \<le> r4"
          and lt: "r4 < days_before_month y m + days_in_month y m"
          unfolding ymd by simp_all
        define P where "P = days_before_month y m"
        define D where "D = days_in_month y m"
        have dP: "d = r4 + 1 - P" using ymd(3) unfolding P_def ymd(1,2) by simp
        have facts: "P \<le> r4" "r4 < P + D" using le lt unfolding P_def D_def by simp_all
        have dd: "1 \<le> d \<and> d \<le> D" "P + d = r4 + 1" using facts dP by arith+
        have "valid_date y m d"
          using yr mm dd(1) unfolding valid_date_def D_def ymd(1) by simp
        moreover have "ymd_to_ord y m d = ordinal"
          using total dd(2) unfolding ymd_to_ord_def P_def ymd(1) by simp
        ultimately show ?thesis ..
      qed
    qed
  qed
qed

text \<open>\<open>utcfromtimestamp\<close> returns the moment that lies the given seconds after the epoch.\<close>

lemma utcfromtimestamp_correct:
  assumes "n \<le> 253402300799"
  shows "\<exists>dt. utcfromtimestamp n = Inr dt \<and> wf_datetime dt \<and> tzinfo dt = None
              \<and> utc_to_seconds dt - epoch = int n"
proof -
  obtain y m d where ymd: "ord_to_ymd (n div 86400 + 719163) = (y, m, d)"
    by (cases "ord_to_ymd (n div 86400 + 719163)")
  have "n div 86400 \<le> 2932896" using assms by simp
  then have "1 \<le> n div 86400 + 719163" "n div 86400 + 719163 \<le> 3652059" by simp_all
  from ord_to_ymd_correct[OF this ymd]
  have v: "valid_date y m d" and o: "ymd_to_ord y m d = n div 86400 + 719163" by simp_all
  let ?r = "n mod 86400"
  let ?dt = "\<lparr>year = y, month = m, day = d, hour = ?r div 3600, minute = ?r mod 3600 div 60,
             second = ?r mod 60, microsecond = 0, tzinfo = None\<rparr>"
  have u: "utcfromtimestamp n = Inr ?dt"
    using assms ymd by (simp add: utcfromtimestamp_def Let_def)
  have h: "?r div 3600 \<le> 23" by simp
  have mi: "?r mod 3600 div 60 \<le> 59" by simp
  have wf: "wf_datetime ?dt" using v h mi by (simp add: wf_datetime_def)
  have "?r mod 60 = ?r mod 3600 mod 60" by (simp add: mod_mod_cancel)
  then have "(?r div 3600 * 60 + ?r mod 3600 div 60) * 60 + ?r mod 60
      = ?r div 3600 * 3600 + (?r mod 3600 div 60 * 60 + ?r mod 3600 mod 60)"
    by (simp only: add_mult_distrib)
  also have "\<dots> = ?r div 3600 * 3600 + ?r mod 3600" by (simp only: div_mult_mod_eq)
  also have "\<dots> = ?r" by (simp only: div_mult_mod_eq)
  finally have hms: "(?r div 3600 * 60 + ?r mod 3600 div 60) * 60 + ?r mod 60 = ?r" .
  define H where "H = ?r div 3600"
  define MI where "MI = ?r mod 3600 div 60"
  define S where "S = ?r mod 60"
  define q where "q = n div 86400"
  define r where "r = n mod 86400"
  have 1: "(H * 60 + MI) * 60 + S = r" using hms unfolding H_def MI_def S_def r_def .
  have 2: "n = q * 86400 + r" unfolding q_def r_def by simp
  have "((ymd_to_ord y m d * 24 + H) * 60 + MI) * 60 + S = (q + 719163) * 86400 + r"
    unfolding o q_def[symmetric] 1[symmetric] by (simp add: algebra_simps)
  then have "int (((ymd_to_ord y m d * 24 + H) * 60 + MI) * 60 + S) - 719163 * 24 * 60 * 60 = int n"
    unfolding 2 by simp
  then have "utc_to_seconds ?dt - epoch = int n"
    by (simp add: utc_to_seconds_def epoch_def H_def MI_def S_def)
  with u wf show ?thesis by auto
qed

lemma utcfromtimestamp_raises: "253402300799 < n \<Longrightarrow> utcfromtimestamp n = Inl OutOfRange"
  by (simp add: utcfromtimestamp_def)

section \<open>Rendering and reading numbers\<close>

lemma digit_char_0: "digit_char 0 = CHR ''0''"
  by (simp add: digit_char_def char_of_eq_iff)

lemma digit_val_digit_char: "d < 10 \<Longrightarrow> digit_val (digit_char d) = d"
  by (simp add: digit_val_def digit_char_def)

lemma of_char_digit_char: "d < 10 \<Longrightarrow> of_char (digit_char d) = 48 + d"
  by (simp add: digit_char_def)

lemma digits_1: "n < 10 \<Longrightarrow> digits n = [digit_char n]"
  by (subst digits.simps) simp

lemma digits_2: "10 \<le> n \<Longrightarrow> n < 100 \<Longrightarrow> digits n = [digit_char (n div 10), digit_char (n mod 10)]"
  by (subst digits.simps) (simp add: digits_1)

lemma digits_3:
  "100 \<le> n \<Longrightarrow> n < 1000 \<Longrightarrow>
   digits n = [digit_char (n div 100), digit_char (n div 10 mod 10), digit_char (n mod 10)]"
  by (subst digits.simps) (simp add: digits_2 div_mult2_eq[symmetric])

lemma digits_4:
  "1000 \<le> n \<Longrightarrow> n < 10000 \<Longrightarrow>
   digits n = [digit_char (n div 1000), digit_char (n div 100 mod 10),
               digit_char (n div 10 mod 10), digit_char (n mod 10)]"
  by (subst digits.simps) (simp add: digits_3 div_mult2_eq[symmetric])

lemma zfill_2:
  assumes "n < 100"
  shows "zfill 2 n = [digit_char (n div 10), digit_char (n mod 10)]"
proof (cases "n < 10")
  case True
  then show ?thesis by (simp add: zfill_def digits_1 digit_char_0)
next
  case False
  with assms show ?thesis by (simp add: zfill_def digits_2)
qed

lemma zfill_4:
  assumes "n < 10000"
  shows "zfill 4 n = [digit_char (n div 1000), digit_char (n div 100 mod 10),
                      digit_char (n div 10 mod 10), digit_char (n mod 10)]"
proof -
  consider "n < 10" | "10 \<le> n" "n < 100" | "100 \<le> n" "n < 1000" | "1000 \<le> n"
    by linarith
  then show ?thesis
  proof cases
    case 1
    then show ?thesis by (simp add: zfill_def digits_1 digit_char_0 replicate_numeral)
  next
    case 2
    then show ?thesis by (simp add: zfill_def digits_2 digit_char_0 replicate_numeral)
  next
    case 3
    then show ?thesis by (simp add: zfill_def digits_3 digit_char_0)
  next
    case 4
    with assms show ?thesis by (simp add: zfill_def digits_4)
  qed
qed

lemma digits_to_nat_2: "digits_to_nat [a, b] = 10 * digit_val a + digit_val b"
  by (simp add: digits_to_nat_def)

lemma digits_to_nat_4:
  "digits_to_nat [a, b, c, d] = 1000 * digit_val a + 100 * digit_val b + 10 * digit_val c + digit_val d"
  by (simp add: digits_to_nat_def)

lemma re_year_zfill: 
  assumes "y < 10000"
  shows "re_year (zfill 4 y @ r) = Some (y, r)"
proof -
  have d: "y div 1000 < 10" "y div 100 mod 10 < 10" "y div 10 mod 10 < 10" "y mod 10 < 10"
    using assms by simp_all
  have 1: "y = 10 * (y div 10) + y mod 10" by simp
  have 2: "y div 10 = 10 * (y div 100) + y div 10 mod 10"
    using div_mult_mod_eq[of "y div 10" 10] by (simp add: div_mult2_eq[symmetric])
  have 3: "y div 100 = 10 * (y div 1000) + y div 100 mod 10"
    using div_mult_mod_eq[of "y div 100" 10] by (simp add: div_mult2_eq[symmetric])
  have "1000 * (y div 1000) + 100 * (y div 100 mod 10) + 10 * (y div 10 mod 10) + y mod 10 = y"
    using 1 2 3 by linarith
  then show ?thesis
    using d by (simp add: zfill_4[OF assms] re_year_def is_dec_digit_char digits_to_nat_4
        digit_val_digit_char)
qed

lemma re_num_zfill:
  assumes "lo \<le> n" "n \<le> hi" "n < 100"
  shows "re_num lo hi (zfill 2 n @ r) = Some (n, r)"
proof -
  have d: "n div 10 < 10" "n mod 10 < 10" using assms by simp_all
  have "10 * (n div 10) + n mod 10 = n" by simp
  then show ?thesis
    using d assms by (simp add: zfill_2[OF assms(3)] re_num_def is_dec_digit_char digits_to_nat_2
        digit_val_digit_char)
qed

lemma re_day_zfill: "1 \<le> d \<Longrightarrow> d \<le> 31 \<Longrightarrow> re_day (zfill 2 d @ r) = Some (d, r)"
  by (simp add: re_day_def re_num_zfill)

lemma re_lit_same: "re_lit c (c # r) = Some r"
  by (simp add: re_lit_def)

lemma format_offset_shape: "format_offset off = [] \<or> ends_in_digit (format_offset off)"
proof (cases off)
  case None
  then show ?thesis by (simp add: format_offset_def)
next
  case (Some v)
  define a where "a = nat (abs v)"
  define ss where "ss = a mod 3600000000 mod 60000000"
  define tail2 where
    "tail2 = (if ss mod 1000000 \<noteq> 0 then ''.'' @ zfill 6 (ss mod 1000000) else [])"
  define tail1 where
    "tail1 = (if ss \<noteq> 0 then '':'' @ zfill 2 (ss div 1000000) @ tail2 else [])"
  have f: "format_offset off =
      ((if v < 0 then ''-'' else ''+'') @ zfill 2 (a div 3600000000) @ '':'')
      @ zfill 2 (a mod 3600000000 div 60000000) @ tail1"
    by (simp add: Some format_offset_def Let_def a_def ss_def tail1_def tail2_def)
  have t2: "tail2 = [] \<or> ends_in_digit tail2"
    by (simp add: tail2_def ends_in_digit_Cons ends_in_digit_zfill)
  have "ends_in_digit (zfill 2 (ss div 1000000) @ tail2)"
    using t2 by (intro ends_in_digit_append_opt ends_in_digit_zfill)
  then have t1: "tail1 = [] \<or> ends_in_digit tail1"
    by (simp add: tail1_def ends_in_digit_Cons)
  have "ends_in_digit (zfill 2 (a mod 3600000000 div 60000000) @ tail1)"
    using t1 by (intro ends_in_digit_append_opt ends_in_digit_zfill)
  then have "ends_in_digit (((if v < 0 then ''-'' else ''+'') @ zfill 2 (a div 3600000000) @ '':'')
      @ zfill 2 (a mod 3600000000 div 60000000) @ tail1)"
    by (rule ends_in_digit_append)
  then show ?thesis unfolding f by (rule disjI2)
qed

lemma date_isoformat_shape:
  "date_isoformat dt \<noteq> []" "is_dec (hd (date_isoformat dt))" "ends_in_digit (date_isoformat dt)"
proof -
  show "date_isoformat dt \<noteq> []" by (simp add: date_isoformat_def zfill_dec)
  show "is_dec (hd (date_isoformat dt))"
    unfolding date_isoformat_def by (rule hd_zfill)
  show "ends_in_digit (date_isoformat dt)"
    unfolding date_isoformat_def by (intro ends_in_digit_append ends_in_digit_zfill)
qed

lemma isoformat_shape:
  "isoformat dt \<noteq> []" "is_dec (hd (isoformat dt))" "ends_in_digit (isoformat dt)"
proof -
  show "isoformat dt \<noteq> []" by (simp add: isoformat_def date_isoformat_shape)
  show "is_dec (hd (isoformat dt))"
    using date_isoformat_shape(1,2)[of dt] by (simp add: isoformat_def)
  let ?a = "date_isoformat dt @ ''T'' @ zfill 2 (hour dt) @ '':'' @ zfill 2 (minute dt) @ '':''"
  let ?f = "if microsecond dt \<noteq> 0 then ''.'' @ zfill 6 (microsecond dt) else []"
  have iso: "isoformat dt = ((?a @ zfill 2 (second dt)) @ ?f) @ format_offset (tzinfo dt)"
    by (simp add: isoformat_def)
  have 1: "ends_in_digit (?a @ zfill 2 (second dt))"
    by (intro ends_in_digit_append ends_in_digit_zfill)
  have "?f = [] \<or> ends_in_digit ?f"
    by (simp add: ends_in_digit_Cons ends_in_digit_zfill)
  with 1 have "ends_in_digit ((?a @ zfill 2 (second dt)) @ ?f)"
    by (rule ends_in_digit_append_opt)
  then show "ends_in_digit (isoformat dt)"
    unfolding iso using format_offset_shape by (rule ends_in_digit_append_opt)
qed

section \<open>Parsing what the Date Normalizer prints\<close>

lemma re_num_zfill_end:
  "lo \<le> n \<Longrightarrow> n \<le> hi \<Longrightarrow> n < 100 \<Longrightarrow> re_num lo hi (zfill 2 n) = Some (n, [])"
  using re_num_zfill[of lo n hi "[]"] by simp

lemma re_day_zfill_end: "1 \<le> d \<Longrightarrow> d \<le> 31 \<Longrightarrow> re_day (zfill 2 d) = Some (d, [])"
  using re_day_zfill[of d "[]"] by simp

lemma not_dec_chars:
  "\<not> is_dec CHR ''-''" "\<not> is_dec CHR ''T''" "\<not> is_dec CHR '':''" "\<not> is_dec CHR ''+''"
  "\<not> is_dec CHR ''.''" "\<not> is_dec CHR ''Z''" "\<not> is_dec CHR '' ''"
  by (simp_all add: is_dec_def)

lemma not_isdigit_chars:
  "\<not> isdigit_char CHR ''-''" "\<not> isdigit_char CHR ''T''" "\<not> isdigit_char CHR '':''"
  by (simp_all add: isdigit_char_def is_dec_def)

lemma lower_char_dec: "is_dec a \<Longrightarrow> lower_char a = a"
  by (simp add: lower_char_def is_dec_def Let_def)

lemma re_name_weekday_dec: "is_dec a \<Longrightarrow> re_name a_weekday (a # s) = None"
proof -
  assume a: "is_dec a"
  then have ne: "a \<noteq> CHR ''m''" "a \<noteq> CHR ''t''" "a \<noteq> CHR ''w''" "a \<noteq> CHR ''f''" "a \<noteq> CHR ''s''"
    by (auto simp: is_dec_def)
  show ?thesis
    using ne by (simp add: re_name_def a_weekday_def lower_def lower_char_dec[OF a]
        split: list.splits)
qed

lemma zfill_4_Cons: "y < 10000 \<Longrightarrow> \<exists>a s. zfill 4 y = a # s \<and> is_dec a"
  by (simp add: zfill_4 is_dec_digit_char)

lemma strptime_rfc822_digit: "y < 10000 \<Longrightarrow> strptime (zfill 4 y @ r) Fmt_rfc822 = None"
proof -
  assume "y < 10000"
  from zfill_4_Cons[OF this] obtain a s where "zfill 4 y = a # s" "is_dec a" by blast
  then show ?thesis by (simp add: re_name_weekday_dec)
qed

lemma not_in_zfill: "\<not> is_dec c \<Longrightarrow> c \<notin> set (zfill w n)"
  using zfill_dec(1)[of w n] by (auto simp: list_all_iff)

lemma valid_date_bounds: "valid_date y m d \<Longrightarrow> y < 10000 \<and> 1 \<le> m \<and> m \<le> 12 \<and> 1 \<le> d \<and> d \<le> 31"
  by (auto simp: valid_date_def days_in_month_def split: if_splits)

lemma isoformat_naive:
  assumes "microsecond dt = 0" "tzinfo dt = None"
  shows "isoformat dt = zfill 4 (year dt) @ CHR ''-'' # zfill 2 (month dt) @ CHR ''-'' #
     zfill 2 (day dt) @ CHR ''T'' # zfill 2 (hour dt) @ CHR '':'' # zfill 2 (minute dt) @ CHR '':'' #
     zfill 2 (second dt)"
  using assms by (simp add: isoformat_def date_isoformat_def format_offset_def)

lemma parse_naive_isoformat:
  assumes wf: "wf_datetime dt" and tz: "tzinfo dt = None"
  shows "parse_datetime (isoformat dt) = Inr None"
proof -
  from wf have us: "microsecond dt = 0" and v: "valid_date (year dt) (month dt) (day dt)"
    and h: "hour dt \<le> 23" and mi: "minute dt \<le> 59" and s: "second dt \<le> 59"
    by (simp_all add: wf_datetime_def)
  note b = valid_date_bounds[OF v]
  note iso = isoformat_naive[OF us tz]
  have nd: "\<not> isdigit (isoformat dt)"
    unfolding iso by (simp add: isdigit_def not_isdigit_chars)
  have ne: "isoformat dt \<noteq> []" by (rule isoformat_shape)
  have 1: "strptime (isoformat dt) Fmt_iso = None"
    unfolding iso using b h mi s
    by (simp add: re_year_zfill re_lit_same re_month_def re_num_zfill re_day_zfill re_hour_def
        re_minute_def re_second_def re_num_zfill_end re_z_def)
  have 2: "strptime (isoformat dt) Fmt_rfc822 = None"
    unfolding iso using b by (simp only: strptime_rfc822_digit)
  have 3: "strptime (isoformat dt) Fmt_date = None"
    unfolding iso using b
    by (simp add: re_year_zfill re_lit_same re_month_def re_num_zfill re_day_zfill re_end_def)
  show ?thesis using nd ne 1 2 3 by (simp add: parse_datetime_def)
qed

lemma normalize_digits:
  assumes "isdigit v" "normalize_date v = Inr d"
  shows "\<exists>dt. wf_datetime dt \<and> tzinfo dt = None \<and> d = isoformat dt
           \<and> py_int v = Inr (digits_to_nat v) \<and> utcfromtimestamp (digits_to_nat v) = Inr dt"
proof -
  from assms have ne: "v \<noteq> []" by (simp add: isdigit_def)
  from assms ne obtain n dt where n: "py_int v = Inr n" and u: "utcfromtimestamp n = Inr dt"
    and d: "d = isoformat dt"
    by (auto simp: normalize_date_def parse_datetime_def split: sum.splits option.splits)
  from n have nv: "n = digits_to_nat v" by (rule py_int_Inr)
  have "n \<le> 253402300799"
  proof (rule ccontr)
    assume "\<not> ?thesis"
    then have "utcfromtimestamp n = Inl OutOfRange" by (simp add: utcfromtimestamp_raises)
    with u show False by simp
  qed
  from utcfromtimestamp_correct[OF this] u have "wf_datetime dt" "tzinfo dt = None" by auto
  with n u d nv show ?thesis by auto
qed

lemma normalize_digits_unparseable:
  assumes "isdigit v" "normalize_date v = Inr d"
  shows "parse_datetime d = Inr None"
  using normalize_digits[OF assms] parse_naive_isoformat by auto

section \<open>Examples of normalized dates\<close>

lemma digit_char_values:
  "digit_char 0 = CHR ''0''" "digit_char 1 = CHR ''1''" "digit_char 2 = CHR ''2''"
  "digit_char 3 = CHR ''3''" "digit_char 4 = CHR ''4''" "digit_char 5 = CHR ''5''"
  "digit_char 6 = CHR ''6''" "digit_char 7 = CHR ''7''" "digit_char 8 = CHR ''8''"
  "digit_char 9 = CHR ''9''" "digit_char (Suc 0) = CHR ''1''"
  by (simp_all add: digit_char_def char_of_eq_iff)

lemmas format_eval = isoformat_def date_isoformat_def format_offset_def zfill_2 zfill_4
  digit_char_values

lemma normalize_date_epoch_example: "normalize_date ''1717196400'' = Inr ''2024-05-31T23:00:00''"
  by (simp add: normalize_date_def parse_datetime_def isdigit_def isdigit_char_def is_dec_def
      py_int_short max_str_digits_def digits_to_nat_def digit_val_def clock_eval format_eval)

lemma parse_naive_example: "parse_datetime ''2024-05-31T23:00:00'' = Inr None"
  by (simp add: parse_datetime_def isdigit_def isdigit_char_def strptime_eval)

lemma normalize_naive_example: "normalize_date ''2024-05-31T23:00:00'' = Inr []"
  by (simp add: normalize_date_def parse_naive_example)

section \<open>The pipeline orchestrator\<close>

lemma extract_loop_unknown:
  "\<forall>x\<in>set pre. \<exists>p rs. map_of PORTALS x = Some p \<and> extract p = Inr rs \<Longrightarrow>
   map_of PORTALS n = None \<Longrightarrow>
   extract_loop extract (pre @ n # post) records w =
     (w\<lparr>extracted := extracted w @ map (the \<circ> map_of PORTALS) pre\<rparr>,
      Inl (ValueError (''Unknown portal: '' @ n)))"
proof (induction pre arbitrary: records w)
  case Nil
  then show ?case by simp
next
  case (Cons x pre)
  from Cons.prems(1) obtain p rs where x: "map_of PORTALS x = Some p" "extract p = Inr rs"
    by auto
  have "extract_loop extract ((x # pre) @ n # post) records w =
          extract_loop extract (pre @ n # post) (records @ rs) (w\<lparr>extracted := extracted w @ [p]\<rparr>)"
    using x by simp
  also have "\<dots> = ((w\<lparr>extracted := extracted w @ [p]\<rparr>)
                       \<lparr>extracted := extracted (w\<lparr>extracted := extracted w @ [p]\<rparr>)
                                       @ map (the \<circ> map_of PORTALS) pre\<rparr>,
                    Inl (ValueError (''Unknown portal: '' @ n)))"
    using Cons.prems by (intro Cons.IH) auto
  finally show ?case using x by simp
qed

lemma extract_loop_all:
  "\<forall>x\<in>set sel. \<exists>p rs. map_of PORTALS x = Some p \<and> extract p = Inr rs \<Longrightarrow>
   \<exists>rs. extract_loop extract sel records w =
     (w\<lparr>extracted := extracted w @ map (the \<circ> map_of PORTALS) sel\<rparr>, Inr rs)"
proof (induction sel arbitrary: records w)
  case Nil
  then show ?case by simp
next
  case (Cons x sel)
  from Cons.prems obtain p rs where x: "map_of PORTALS x = Some p" "extract p = Inr rs"
    by auto
  from Cons.prems have "\<forall>x\<in>set sel. \<exists>p rs. map_of PORTALS x = Some p \<and> extract p = Inr rs"
    by simp
  from Cons.IH[OF this, of "records @ rs" "w\<lparr>extracted := extracted w @ [p]\<rparr>"]
  show ?case using x by auto
qed

lemma extract_loop_files:
  "extract_loop extract sel records w = (w1, r) \<Longrightarrow> files w1 = files w \<and> printed w1 = printed w"
proof (induction sel arbitrary: records w)
  case Nil
  then show ?case by auto
next
  case (Cons x sel)
  show ?case
  proof (cases "map_of PORTALS x")
    case None
    with Cons.prems show ?thesis by auto
  next
    case (Some p)
    show ?thesis
    proof (cases "extract p")
      case (Inl e)
      with Some Cons.prems show ?thesis by auto
    next
      case (Inr rs)
      with Some Cons.prems Cons.IH[of "records @ rs" "w\<lparr>extracted := extracted w @ [p]\<rparr>"]
      show ?thesis by auto
    qed
  qed
qed

lemma extract_loop_unregistered:
  "\<exists>n\<in>set sel. map_of PORTALS n = None \<Longrightarrow>
   extract_loop extract sel records w = (w1, r) \<Longrightarrow> isl r"
proof (induction sel arbitrary: records w)
  case Nil
  then show ?case by simp
next
  case (Cons x sel)
  show ?case
  proof (cases "map_of PORTALS x")
    case None
    with Cons.prems show ?thesis by auto
  next
    case (Some p)
    show ?thesis
    proof (cases "extract p")
      case (Inl e)
      with Some Cons.prems(2) show ?thesis by (auto simp: Inl)
    next
      case (Inr rs)
      with Some Cons.prems have "\<exists>n\<in>set sel. map_of PORTALS n = None" by auto
      from Cons.IH[OF this, of "records @ rs" "w\<lparr>extracted := extracted w @ [p]\<rparr>"]
        Some Inr Cons.prems
      show ?thesis by auto
    qed
  qed
qed

lemma run_etl_files:
  assumes "run_etl extract tz now selected output fmt titles w = (w', Inl e)"
  shows "files w' = files w \<and> printed w' = printed w"
proof -
  obtain w1 r where l: "extract_loop extract selected [] w = (w1, r)"
    by (cases "extract_loop extract selected [] w")
  have "w' = w1"
    using assms l
    by (auto simp: run_etl_def split: sum.splits if_splits)
  with extract_loop_files[OF l] show ?thesis by simp
qed

text \<open>
  Claim C1, as the code has it. A run whose source list holds a name without a
  registered adapter, or whose format is none of the three sinks, ends in an error and
  writes no sink and prints nothing. The error for an unregistered name is raised when
  the loop reaches that name: after the \<open>extract\<close> of every name before it, before the
  \<open>extract\<close> of any name after it. With every name registered and an unsupported
  format, the run fails only after every selected adapter was extracted.
\<close>

theorem run_etl_configuration_error:
  "(run_etl feed tz now selected path fmt titles w = (w', res) \<longrightarrow>
      (\<exists>n\<in>set selected. map_of PORTALS n = None) \<or> fmt \<notin> set [''csv'', ''jsonl'', ''sqlite''] \<longrightarrow>
      isl res \<and> files w' = files w \<and> printed w' = printed w)
   \<and> (selected = pre @ n # post \<longrightarrow> map_of PORTALS n = None \<longrightarrow>
      (\<forall>x\<in>set pre. \<exists>p rs. map_of PORTALS x = Some p \<and> feed p = Inr rs) \<longrightarrow>
      run_etl feed tz now selected path fmt titles w =
        (w\<lparr>extracted := extracted w @ map (the \<circ> map_of PORTALS) pre\<rparr>,
         Inl (ValueError (''Unknown portal: '' @ n))))
   \<and> (fmt \<notin> set [''csv'', ''jsonl'', ''sqlite''] \<longrightarrow>
      (\<forall>x\<in>set selected. \<exists>p rs. map_of PORTALS x = Some p \<and> feed p = Inr rs) \<longrightarrow>
      (\<exists>e. run_etl feed tz now selected path fmt titles w =
        (w\<lparr>extracted := extracted w @ map (the \<circ> map_of PORTALS) selected\<rparr>, Inl e)))"
proof (intro conjI impI)
  assume run: "run_etl feed tz now selected path fmt titles w = (w', res)"
    and bad: "(\<exists>n\<in>set selected. map_of PORTALS n = None) \<or> fmt \<notin> set [''csv'', ''jsonl'', ''sqlite'']"
  obtain w1 r where l: "extract_loop feed selected [] w = (w1, r)"
    by (cases "extract_loop feed selected [] w")
  have "isl res"
  proof (cases "\<exists>n\<in>set selected. map_of PORTALS n = None")
    case True
    from extract_loop_unregistered[OF True l] run l show ?thesis
      by (auto simp: run_etl_def isl_def)
  next
    case False
    with bad have "fmt \<notin> set [''csv'', ''jsonl'', ''sqlite'']" by simp
    with run l show ?thesis
      by (auto simp: run_etl_def split: sum.splits)
  qed
  then obtain e where "res = Inl e" by (auto simp: isl_def)
  with run have "run_etl feed tz now selected path fmt titles w = (w', Inl e)" by simp
  from run_etl_files[OF this] \<open>isl res\<close>
  show "isl res" "files w' = files w" "printed w' = printed w" by auto
next
  assume "selected = pre @ n # post" "map_of PORTALS n = None"
    "\<forall>x\<in>set pre. \<exists>p rs. map_of PORTALS x = Some p \<and> feed p = Inr rs"
  then show "run_etl feed tz now selected path fmt titles w =
        (w\<lparr>extracted := extracted w @ map (the \<circ> map_of PORTALS) pre\<rparr>,
         Inl (ValueError (''Unknown portal: '' @ n)))"
    by (simp add: run_etl_def extract_loop_unknown)
next
  assume fmt: "fmt \<notin> set [''csv'', ''jsonl'', ''sqlite'']"
    and "\<forall>x\<in>set selected. \<exists>p rs. map_of PORTALS x = Some p \<and> feed p = Inr rs"
  from extract_loop_all[OF this(2), of "[]" w] obtain rs where
    "extract_loop feed selected [] w =
       (w\<lparr>extracted := extracted w @ map (the \<circ> map_of PORTALS) selected\<rparr>, Inr rs)" by blast
  with fmt show "\<exists>e. run_etl feed tz now selected path fmt titles w =
        (w\<lparr>extracted := extracted w @ map (the \<circ> map_of PORTALS) selected\<rparr>, Inl e)"
    by (auto simp: run_etl_def split: sum.splits)
qed

theorem run_etl_configuration_error_witness:
  "run_etl no_jobs 0 0 [''remoteok'', ''remotive'', ''linkedin'', ''weworkremotely'']
       ''jobs.csv'' ''csv'' [] empty_world =
     (empty_world\<lparr>extracted := [RemoteOkPortal, RemotivePortal]\<rparr>,
      Inl (ValueError ''Unknown portal: linkedin''))
   \<and> (\<exists>e. run_etl no_jobs 0 0 [''remoteok'', ''remotive''] ''jobs.xml'' ''xml'' [] empty_world =
         (empty_world\<lparr>extracted := [RemoteOkPortal, RemotivePortal]\<rparr>, Inl e))"
  using run_etl_configuration_error [where feed = no_jobs and tz = 0 and now = 0
      and selected = "[''remoteok'', ''remotive'', ''linkedin'', ''weworkremotely'']"
      and pre = "[''remoteok'', ''remotive'']" and n = "''linkedin''"
      and post = "[''weworkremotely'']" and fmt = "''csv''" and w = empty_world
      and titles = "[]" and path = "''jobs.csv''"]
    run_etl_configuration_error [where feed = no_jobs and tz = 0 and now = 0
      and selected = "[''remoteok'', ''remotive'']" and fmt = "''xml''" and w = empty_world
      and titles = "[]" and path = "''jobs.xml''"]
  by (simp add: PORTALS_def no_jobs_def empty_world_def)

text \<open>
  The claim as stated fails: with the sources \<open>remotive, bogus\<close> the adapter of
  \<open>remotive\<close> has been extracted when the error for \<open>bogus\<close> is raised.
\<close>

theorem run_etl_extracts_before_unknown_portal:
  "run_etl no_jobs 0 0 [''remotive'', ''bogus''] ''jobs.sqlite3'' ''sqlite'' [] empty_world =
     (empty_world\<lparr>extracted := [RemotivePortal]\<rparr>, Inl (ValueError ''Unknown portal: bogus''))"
  by (simp add: run_etl_def PORTALS_def no_jobs_def empty_world_def)

section \<open>The Transform stage: trimmed fields\<close>

lemma trimmed_normalize_date: "normalize_date v = Inr d \<Longrightarrow> trimmed d"
  using isoformat_shape(3) date_isoformat_shape(3)
  by (auto simp: normalize_date_def trimmed_iff isoformat_shape(1,2) date_isoformat_shape(1,2)
      ends_in_digit_def is_dec_not_space split: sum.splits option.splits if_splits)

lemma transform_loop_eq:
  "transform_loop cleaned records = Inr out \<Longrightarrow>
   out = cleaned @ map (\<lambda>r. cleaned_record r (projr (normalize_date (date_posted r)))) records
   \<and> (\<forall>r\<in>set records. \<exists>d. normalize_date (date_posted r) = Inr d)"
proof (induction records arbitrary: cleaned)
  case Nil
  then show ?case by simp
next
  case (Cons r records)
  then obtain d where d: "normalize_date (date_posted r) = Inr d"
    by (cases "normalize_date (date_posted r)") auto
  with Cons.prems have "transform_loop (cleaned @ [cleaned_record r d]) records = Inr out"
    by (simp add: cleaned_record_def)
  from Cons.IH[OF this] d show ?case by simp
qed

lemma transform_eq:
  "transform records = Inr out \<Longrightarrow>
   out = map (\<lambda>r. cleaned_record r (projr (normalize_date (date_posted r)))) records
   \<and> (\<forall>r\<in>set records. \<exists>d. normalize_date (date_posted r) = Inr d)"
  using transform_loop_eq[of "[]" records out] by (simp add: transform_def)

lemma transform_total:
  "\<forall>r\<in>set records. \<exists>d. normalize_date (date_posted r) = Inr d \<Longrightarrow>
   transform_loop cleaned records =
     Inr (cleaned @ map (\<lambda>r. cleaned_record r (projr (normalize_date (date_posted r)))) records)"
proof (induction records arbitrary: cleaned)
  case Nil
  then show ?case by simp
next
  case (Cons r records)
  then obtain d where d: "normalize_date (date_posted r) = Inr d" by auto
  from Cons.prems have "\<forall>r\<in>set records. \<exists>d. normalize_date (date_posted r) = Inr d" by simp
  from Cons.IH[OF this, of "cleaned @ [cleaned_record r d]"] d
  show ?case by (simp add: cleaned_record_def)
qed

text \<open>
  Claim C8, as the code has it. In every record that the Transform stage returns, the
  eight fields \<open>title\<close>, \<open>company\<close>, \<open>location\<close>, \<open>url\<close>, \<open>tags\<close>, \<open>date_posted\<close>,
  \<open>salary\<close> and \<open>description\<close> carry no leading or trailing white space;
  \<open>source\<close> and \<open>source_id\<close> are those of an input record, unchanged.
\<close>

theorem transform_fields_trimmed:
  assumes "transform records = Inr cleaned" and "c \<in> set cleaned"
  shows "trimmed (title c) \<and> trimmed (company c) \<and> trimmed (location c) \<and> trimmed (url c)
         \<and> trimmed (tags c) \<and> trimmed (date_posted c) \<and> trimmed (salary c)
         \<and> trimmed (description c)
         \<and> (\<exists>r\<in>set records. source c = source r \<and> source_id c = source_id r)"
proof -
  from transform_eq[OF assms(1)] assms(2) obtain r d where
    r: "r \<in> set records" and d: "normalize_date (date_posted r) = Inr d"
    and c: "c = cleaned_record r d"
    by fastforce
  from trimmed_normalize_date[OF d] r show ?thesis
    unfolding c by (auto simp: cleaned_record_def trimmed_strip)
qed

theorem transform_fields_trimmed_witness:
  "trimmed (title (job ''remotive'' ''7'' ''Senior Engineer'' [])) \<and>
   (\<exists>r\<in>set [job ''remotive'' ''7'' '' Senior Engineer '' []].
      source (job ''remotive'' ''7'' ''Senior Engineer'' []) = source r)"
  using transform_fields_trimmed [of "[job ''remotive'' ''7'' '' Senior Engineer '' []]"
      "[job ''remotive'' ''7'' ''Senior Engineer'' []]" "job ''remotive'' ''7'' ''Senior Engineer'' []"]
  by (simp add: transform_def job_def normalize_date_def parse_datetime_def strip_def isspace_def)

text \<open>
  The claim as stated fails on \<open>source_id\<close>: the Transform stage copies it, white
  space included.
\<close>

theorem transform_keeps_space_in_source_id:
  "transform [job ''remotive'' '' 7'' ''Engineer'' []] = Inr [job ''remotive'' '' 7'' ''Engineer'' []]
   \<and> \<not> trimmed (source_id (job ''remotive'' '' 7'' ''Engineer'' []))"
  by (simp add: transform_def job_def normalize_date_def parse_datetime_def strip_def isspace_def
      trimmed_def)

section \<open>The Filter stage: titles and recency\<close>

lemma filter_loop_eq:
  "filter_loop tz cutoff lowered filtered records = Inr out \<Longrightarrow>
   out = filtered @
     filter (\<lambda>r. (lowered = [] \<or> title_matches (title r) lowered) \<and> passes_recency tz cutoff r)
       records"
proof (induction records arbitrary: filtered)
  case Nil
  then show ?case by simp
next
  case (Cons r records)
  show ?case
  proof (cases "lowered \<noteq> [] \<and> \<not> title_matches (title r) lowered")
    case True
    with Cons.prems have "filter_loop tz cutoff lowered filtered records = Inr out" by simp
    from Cons.IH[OF this] True show ?thesis by auto
  next
    case False
    show ?thesis
    proof (cases "passes_recency tz cutoff r")
      case True
      with False Cons.prems
      have "filter_loop tz cutoff lowered (filtered @ [r]) records = Inr out"
        by (auto simp: passes_recency_def split: sum.splits option.splits if_splits)
      from Cons.IH[OF this] True False show ?thesis by auto
    next
      case no: False
      with False Cons.prems
      have "filter_loop tz cutoff lowered filtered records = Inr out"
        by (auto simp: passes_recency_def split: sum.splits option.splits if_splits)
      from Cons.IH[OF this] no show ?thesis by auto
    qed
  qed
qed

lemma title_matches_iff:
  "title_matches t (map lower titles) \<longleftrightarrow> (\<exists>s\<in>set titles. contains (lower t) (lower s))"
  by (auto simp: title_matches_def list_ex_iff)

lemma filter_jobs_eq:
  assumes "filter_jobs tz now records titles = Inr out"
  shows "\<exists>n ts. utcnow now = Inr n \<and> timestamp tz n = Inr ts \<and>
     out = filter (\<lambda>r. (titles = [] \<or> (\<exists>s\<in>set titles. contains (lower (title r)) (lower s)))
                       \<and> passes_recency tz (ts - 86400000000) r) records"
proof -
  from assms obtain n ts where n: "utcnow now = Inr n" and ts: "timestamp tz n = Inr ts"
    and l: "filter_loop tz (ts - 86400000000) (map lower titles) [] records = Inr out"
    by (auto simp: filter_jobs_def split: sum.splits)
  from filter_loop_eq[OF l] n ts show ?thesis
    by (simp add: title_matches_iff)
qed

lemma filter_loop_parsed:
  assumes "filter_loop tz cutoff lowered filtered records = Inr out" and "r \<in> set out"
  shows "r \<in> set filtered \<or> (\<exists>parsed. parse_datetime (date_posted r) = Inr (Some parsed))"
proof -
  from filter_loop_eq[OF assms(1)] assms(2)
  have "r \<in> set filtered \<or> passes_recency tz cutoff r" by auto
  then show ?thesis
    by (auto simp: passes_recency_def split: sum.splits option.splits)
qed

lemma filter_jobs_parsed:
  assumes "filter_jobs tz now records titles = Inr out" and "r \<in> set out"
  shows "\<exists>parsed. parse_datetime (date_posted r) = Inr (Some parsed)"
proof -
  from assms(1) obtain cutoff where
    "filter_loop tz cutoff (map lower titles) [] records = Inr out"
    by (auto simp: filter_jobs_def split: sum.splits)
  from filter_loop_parsed[OF this assms(2)] show ?thesis by simp
qed

lemma filter_loop_returns:
  "\<forall>r\<in>set records. date_reads tz r \<Longrightarrow>
   \<exists>out. filter_loop tz cutoff lowered filtered records = Inr out"
proof (induction records arbitrary: filtered)
  case Nil
  then show ?case by simp
next
  case (Cons r records)
  from Cons.prems have rest: "\<forall>r\<in>set records. date_reads tz r" and r: "date_reads tz r"
    by simp_all
  note ih = Cons.IH[OF rest]
  show ?case
  proof (cases "lowered \<noteq> [] \<and> \<not> title_matches (title r) lowered")
    case True
    with ih[of filtered] show ?thesis by simp
  next
    case False
    have "parse_datetime (date_posted r) = Inr None
        \<or> (\<exists>parsed ts. parse_datetime (date_posted r) = Inr (Some parsed)
              \<and> timestamp tz parsed = Inr ts)"
    proof (cases "parse_datetime (date_posted r)")
      case (Inl e)
      with r show ?thesis by (simp add: date_reads_def)
    next
      case (Inr p)
      show ?thesis
      proof (cases p)
        case None
        with Inr show ?thesis by simp
      next
        case (Some parsed)
        with Inr r obtain ts where "timestamp tz parsed = Inr ts"
          by (cases "timestamp tz parsed") (simp_all add: date_reads_def)
        with Inr Some show ?thesis by simp
      qed
    qed
    then consider (none) "parse_datetime (date_posted r) = Inr None"
      | (some) parsed ts where "parse_datetime (date_posted r) = Inr (Some parsed)"
          "timestamp tz parsed = Inr ts"
      by blast
    then show ?thesis
    proof cases
      case none
      with False ih[of filtered] show ?thesis by simp
    next
      case some
      with False ih[of filtered] ih[of "filtered @ [r]"] show ?thesis by simp
    qed
  qed
qed

lemma filter_jobs_returns:
  assumes "utcnow now = Inr n" and "timestamp tz n = Inr ts"
    and "\<forall>r\<in>set records. date_reads tz r"
  shows "\<exists>kept. filter_jobs tz now records titles = Inr kept"
  using assms(1,2) filter_loop_returns[OF assms(3)] by (simp add: filter_jobs_def)

text \<open>
  Claim C6. When \<open>filter_jobs\<close> returns, its result is the input list, in its order,
  restricted to the records that pass: with no titles, those that pass the recency check
  against the cutoff (the time stamp of \<open>utcnow()\<close> less 24 hours); with titles, those
  that pass the recency check and whose lowered title contains at least one lowered
  entry of the title list. And \<open>filter_jobs\<close> returns whenever the clock can be read
  and reading the date of no record raises.
\<close>

theorem filter_jobs_titles_and_recency:
  "(filter_jobs tz now records titles = Inr out \<longrightarrow>
      (\<exists>n ts. utcnow now = Inr n \<and> timestamp tz n = Inr ts \<and>
         (titles = [] \<longrightarrow> out = filter (passes_recency tz (ts - 86400000000)) records) \<and>
         (titles \<noteq> [] \<longrightarrow>
            out = filter (\<lambda>r. (\<exists>s\<in>set titles. contains (lower (title r)) (lower s))
                              \<and> passes_recency tz (ts - 86400000000) r) records)))
   \<and> (utcnow now = Inr n \<longrightarrow> timestamp tz n = Inr ts \<longrightarrow> (\<forall>r\<in>set rs. date_reads tz r) \<longrightarrow>
        (\<exists>kept. filter_jobs tz now rs titles = Inr kept))"
proof (intro conjI impI)
  assume "filter_jobs tz now records titles = Inr out"
  from filter_jobs_eq[OF this]
  show "\<exists>n ts. utcnow now = Inr n \<and> timestamp tz n = Inr ts \<and>
         (titles = [] \<longrightarrow> out = filter (passes_recency tz (ts - 86400000000)) records) \<and>
         (titles \<noteq> [] \<longrightarrow>
            out = filter (\<lambda>r. (\<exists>s\<in>set titles. contains (lower (title r)) (lower s))
                              \<and> passes_recency tz (ts - 86400000000) r) records)"
    by auto
next
  assume "utcnow now = Inr n" "timestamp tz n = Inr ts" "\<forall>r\<in>set rs. date_reads tz r"
  then show "\<exists>kept. filter_jobs tz now rs titles = Inr kept" by (rule filter_jobs_returns)
qed

text \<open>
  An instance: of two records posted an hour ago, the title list \<open>engineer\<close> keeps
  ``Senior Engineer'' and drops ``Data Analyst''; and the Filter stage returns on a list
  that holds a date it cannot parse.
\<close>

theorem filter_jobs_titles_and_recency_witness:
  "(\<exists>n ts. utcnow 1717200000000000 = Inr n \<and> timestamp 0 n = Inr ts \<and>
     [job ''remotive'' ''7'' ''Senior Engineer'' ''2024-05-31T23:00:00+00:00''] =
       filter (\<lambda>r. (\<exists>s\<in>set [''engineer'']. contains (lower (title r)) (lower s))
                     \<and> passes_recency 0 (ts - 86400000000) r)
         [job ''remotive'' ''7'' ''Senior Engineer'' ''2024-05-31T23:00:00+00:00'',
          job ''remotive'' ''8'' ''Data Analyst'' ''2024-05-31T23:00:00+00:00''])
   \<and> (\<exists>kept. filter_jobs 0 1717200000000000
         [job ''remotive'' ''9'' ''Engineer'' ''2024-05-31T23:00:00+00:00'',
          job ''remotive'' ''10'' ''Engineer'' ''next week''] [''engineer''] = Inr kept)"
proof -
  have d: "\<forall>r\<in>set [job ''remotive'' ''9'' ''Engineer'' ''2024-05-31T23:00:00+00:00'',
                     job ''remotive'' ''10'' ''Engineer'' ''next week'']. date_reads 0 r"
    by (simp add: date_reads_def job_def parse_datetime_example timestamp_def)
       (simp add: parse_datetime_def isdigit_def isdigit_char_def strptime_eval)
  from filter_jobs_titles_and_recency [where tz = 0 and now = 1717200000000000
      and titles = "[''engineer'']"
      and records = "[job ''remotive'' ''7'' ''Senior Engineer'' ''2024-05-31T23:00:00+00:00'',
          job ''remotive'' ''8'' ''Data Analyst'' ''2024-05-31T23:00:00+00:00'']"
      and out = "[job ''remotive'' ''7'' ''Senior Engineer'' ''2024-05-31T23:00:00+00:00'']"
      and rs = "[job ''remotive'' ''9'' ''Engineer'' ''2024-05-31T23:00:00+00:00'',
                     job ''remotive'' ''10'' ''Engineer'' ''next week'']"
      and n = "\<lparr>year = 2024, month = 6, day = 1, hour = 0, minute = 0, second = 0,
                  microsecond = 0, tzinfo = None\<rparr>" and ts = 1717200000000000]
  show ?thesis
    using filter_jobs_example utcnow_example timestamp_example d by simp
qed

section \<open>Empty and unparseable dates\<close>



section \<open>Epoch dates through Transform and Filter\<close>

lemma transform_epoch_example:
  "transform [job ''remoteok'' ''7'' ''Engineer'' ''1717196400'']
     = Inr [job ''remoteok'' ''7'' ''Engineer'' ''2024-05-31T23:00:00'']"
  by (simp add: transform_def job_def normalize_date_epoch_example strip_def isspace_def)

lemma filter_epoch_example:
  "filter_jobs 0 1717200000000000 [job ''remoteok'' ''7'' ''Engineer'' ''2024-05-31T23:00:00''] []
     = Inr []"
  by (simp add: filter_jobs_def utcnow_example job_def parse_naive_example timestamp_eval)

text \<open>
  Claim C10. A record whose raw date consists of digits only never passes Transform
  followed by Filter: the date-time that the Date Normalizer prints for it carries no
  offset, \<open>parse_datetime\<close> returns nothing for it, and the Filter stage drops the
  record, whatever the clock, the local zone and the title list.
\<close>

theorem epoch_dated_records_never_survive:
  assumes "transform records = Inr cleaned"
    and "filter_jobs tz now cleaned titles = Inr out"
    and "i < length records"
    and "isdigit (date_posted (records ! i))"
  shows "i < length cleaned \<and> parse_datetime (date_posted (cleaned ! i)) = Inr None
         \<and> cleaned ! i \<notin> set out"
proof -
  from transform_eq[OF assms(1)] have
    c: "cleaned = map (\<lambda>r. cleaned_record r (projr (normalize_date (date_posted r)))) records"
    and ok: "\<forall>r\<in>set records. \<exists>d. normalize_date (date_posted r) = Inr d" by simp_all
  from assms(3) have "records ! i \<in> set records" by simp
  with ok obtain d where d: "normalize_date (date_posted (records ! i)) = Inr d" by blast
  from c assms(3) have len: "i < length cleaned" by simp
  from c assms(3) d have "date_posted (cleaned ! i) = d" by (simp add: cleaned_record_def)
  with normalize_digits_unparseable[OF assms(4) d]
  have p: "parse_datetime (date_posted (cleaned ! i)) = Inr None" by simp
  have "cleaned ! i \<notin> set out"
  proof
    assume "cleaned ! i \<in> set out"
    from filter_jobs_parsed[OF assms(2) this] p show False by simp
  qed
  with len p show ?thesis by simp
qed

theorem epoch_dated_records_never_survive_witness:
  "parse_datetime (date_posted (job ''remoteok'' ''7'' ''Engineer'' ''2024-05-31T23:00:00'')) = Inr None
   \<and> job ''remoteok'' ''7'' ''Engineer'' ''2024-05-31T23:00:00'' \<notin> set []"
  using epoch_dated_records_never_survive [OF transform_epoch_example filter_epoch_example, of 0]
  by (simp add: job_def isdigit_def isdigit_char_def is_dec_def)

section \<open>Plain dates\<close>

lemma date_string_chars:
  "\<not> isdigit (zfill 4 y @ CHR ''-'' # r)"
  "CHR ''T'' \<notin> set (zfill 4 y @ CHR ''-'' # zfill 2 m @ CHR ''-'' # zfill 2 d)"
  "CHR '':'' \<notin> set (zfill 4 y @ CHR ''-'' # zfill 2 m @ CHR ''-'' # zfill 2 d)"
  by (simp_all add: isdigit_def not_isdigit_chars not_in_zfill not_dec_chars)

lemma normalize_date_isoformat:
  assumes wf: "wf_datetime dt"
  shows "normalize_date (date_isoformat dt) = Inr (date_isoformat dt)"
proof -
  from wf have v: "valid_date (year dt) (month dt) (day dt)" by (simp add: wf_datetime_def)
  note b = valid_date_bounds[OF v]
  let ?v = "zfill 4 (year dt) @ CHR ''-'' # zfill 2 (month dt) @ CHR ''-'' # zfill 2 (day dt)"
  let ?p = "\<lparr>year = year dt, month = month dt, day = day dt, hour = 0, minute = 0,
      second = 0, microsecond = 0, tzinfo = None\<rparr>"
  have ne: "?v \<noteq> []" by (simp add: zfill_dec)
  have 1: "strptime ?v Fmt_iso = None"
    using b by (simp add: re_year_zfill re_lit_same re_month_def re_num_zfill re_day_zfill_end
        re_lit_def)
  have 2: "strptime ?v Fmt_rfc822 = None"
    using b by (simp only: strptime_rfc822_digit)
  have 3: "strptime ?v Fmt_date = Some ?p"
    using b v by (simp add: re_year_zfill re_lit_same re_month_def re_num_zfill
        re_day_zfill_end re_end_def make_datetime_def)
  have "parse_datetime ?v = Inr (Some ?p)"
    using ne date_string_chars(1) 1 2 3 by (simp add: parse_datetime_def)
  then have "normalize_date ?v = Inr ?v"
    using date_string_chars by (simp add: normalize_date_def date_isoformat_def)
  then show ?thesis by (simp add: date_isoformat_def)
qed

text \<open>
  Claim C4, as the code has it. The zero-padded rendering \<open>YYYY-MM-DD\<close> of a date of the
  calendar, with a year from 1 to 9999, is returned by \<open>normalize_date\<close> unchanged.
\<close>

theorem normalize_date_plain_date_unchanged:
  assumes "valid_date y m d"
  shows "normalize_date (zfill 4 y @ ''-'' @ zfill 2 m @ ''-'' @ zfill 2 d)
           = Inr (zfill 4 y @ ''-'' @ zfill 2 m @ ''-'' @ zfill 2 d)"
proof -
  let ?dt = "\<lparr>year = y, month = m, day = d, hour = 0, minute = 0, second = 0,
              microsecond = 0, tzinfo = None\<rparr>"
  from assms have "wf_datetime ?dt" by (simp add: wf_datetime_def)
  from normalize_date_isoformat[OF this] show ?thesis by (simp add: date_isoformat_def)
qed

theorem normalize_date_plain_date_unchanged_witness:
  "normalize_date ''2024-06-01'' = Inr ''2024-06-01''"
  using normalize_date_plain_date_unchanged [of 2024 6 1]
  by (simp add: valid_date_def days_in_month_def zfill_2 zfill_4 digit_char_values)

text \<open>
  The claim as stated fails on a string of that shape that is no date: it is normalized
  to the empty string.
\<close>

theorem normalize_date_rejects_february_30: "normalize_date ''2023-02-30'' = Inr []"
  by (simp add: normalize_date_def parse_datetime_def isdigit_def isdigit_char_def strptime_eval)

section \<open>Epoch dates and the granularity of the output\<close>

lemma z_offset_bound: "z_offset z = Some off \<Longrightarrow> abs off < 86400000000"
  by (auto simp: z_offset_def Let_def split: option.splits if_splits prod.splits)

lemma make_datetime_wf:
  "make_datetime y m d hh mm ss tz = Some dt \<Longrightarrow>
   (case tz of None \<Rightarrow> True | Some off \<Rightarrow> abs off < 86400000000) \<Longrightarrow> wf_datetime dt"
  by (auto simp: make_datetime_def wf_datetime_def split: if_splits)

lemma strptime_wf: "strptime v fmt = Some dt \<Longrightarrow> wf_datetime dt"
proof (cases fmt)
  case Fmt_iso
  assume "strptime v fmt = Some dt"
  then obtain y m d hh mm ss z off where "z_offset z = Some off"
    "make_datetime y m d hh mm ss (Some off) = Some dt"
    unfolding Fmt_iso strptime.simps by (auto simp: bind_eq_Some_conv)
  then show ?thesis using z_offset_bound make_datetime_wf by fastforce
next
  case Fmt_rfc822
  assume "strptime v fmt = Some dt"
  then obtain y m d hh mm ss z off where "z_offset z = Some off"
    "make_datetime y m d hh mm ss (Some off) = Some dt"
    unfolding Fmt_rfc822 strptime.simps by (auto simp: bind_eq_Some_conv)
  then show ?thesis using z_offset_bound make_datetime_wf by fastforce
next
  case Fmt_date
  assume "strptime v fmt = Some dt"
  then obtain y m d where "make_datetime y m d 0 0 0 None = Some dt"
    unfolding Fmt_date strptime.simps by (auto simp: bind_eq_Some_conv)
  then show ?thesis using make_datetime_wf by fastforce
qed

lemma try_formats_wf: "try_formats v fmts = Some dt \<Longrightarrow> wf_datetime dt"
  by (induction fmts) (auto split: option.splits dest: strptime_wf)

lemma parse_datetime_wf: "parse_datetime v = Inr (Some dt) \<Longrightarrow> wf_datetime dt"
proof -
  assume p: "parse_datetime v = Inr (Some dt)"
  show ?thesis
  proof (cases "isdigit v")
    case True
    with p obtain n where "utcfromtimestamp n = Inr dt"
      by (auto simp: parse_datetime_def split: if_splits sum.splits)
    moreover from this have "n \<le> 253402300799"
      by (cases "n \<le> 253402300799") (simp_all add: utcfromtimestamp_raises)
    ultimately show ?thesis using utcfromtimestamp_correct[of n] by auto
  next
    case False
    with p have "try_formats v [Fmt_iso, Fmt_rfc822, Fmt_date] = Some dt"
      by (auto simp: parse_datetime_def split: if_splits)
    then show ?thesis by (rule try_formats_wf)
  qed
qed

lemma isoformat_wf:
  assumes "wf_datetime dt"
  shows "isoformat dt = zfill 4 (year dt) @ ''-'' @ zfill 2 (month dt) @ ''-'' @ zfill 2 (day dt) @ ''T''
     @ zfill 2 (hour dt) @ '':'' @ zfill 2 (minute dt) @ '':'' @ zfill 2 (second dt)
     @ format_offset (tzinfo dt)"
  using assms by (simp add: isoformat_def date_isoformat_def wf_datetime_def)







section \<open>Reading back a printed offset\<close>

lemma digits_5:
  "10000 \<le> n \<Longrightarrow> n < 100000 \<Longrightarrow>
   digits n = [digit_char (n div 10000), digit_char (n div 1000 mod 10),
               digit_char (n div 100 mod 10), digit_char (n div 10 mod 10), digit_char (n mod 10)]"
  by (subst digits.simps) (simp add: digits_4 div_mult2_eq[symmetric])

lemma digits_6:
  "100000 \<le> n \<Longrightarrow> n < 1000000 \<Longrightarrow>
   digits n = [digit_char (n div 100000), digit_char (n div 10000 mod 10),
               digit_char (n div 1000 mod 10), digit_char (n div 100 mod 10),
               digit_char (n div 10 mod 10), digit_char (n mod 10)]"
  by (subst digits.simps) (simp add: digits_5 div_mult2_eq[symmetric])

lemma zfill_6:
  assumes "n < 1000000"
  shows "zfill 6 n = [digit_char (n div 100000), digit_char (n div 10000 mod 10),
               digit_char (n div 1000 mod 10), digit_char (n div 100 mod 10),
               digit_char (n div 10 mod 10), digit_char (n mod 10)]"
proof -
  consider "n < 10" | "10 \<le> n" "n < 100" | "100 \<le> n" "n < 1000" | "1000 \<le> n" "n < 10000"
    | "10000 \<le> n" "n < 100000" | "100000 \<le> n"
    by linarith
  then show ?thesis
  proof cases
    case 1
    then show ?thesis by (simp add: zfill_def digits_1 digit_char_0 replicate_numeral)
  next
    case 2
    then show ?thesis by (simp add: zfill_def digits_2 digit_char_0 replicate_numeral)
  next
    case 3
    then show ?thesis by (simp add: zfill_def digits_3 digit_char_0 replicate_numeral)
  next
    case 4
    then show ?thesis by (simp add: zfill_def digits_4 digit_char_0 replicate_numeral)
  next
    case 5
    then show ?thesis by (simp add: zfill_def digits_5 digit_char_0)
  next
    case 6
    with assms show ?thesis by (simp add: zfill_def digits_6)
  qed
qed

lemma length_zfill_6: "n < 1000000 \<Longrightarrow> length (zfill 6 n) = 6"
  by (simp add: zfill_6)

lemma digits_to_nat_zfill_6:
  assumes "n < 1000000"
  shows "digits_to_nat (zfill 6 n) = n"
proof -
  have 1: "n = 10 * (n div 10) + n mod 10" by simp
  have 2: "n div 10 = 10 * (n div 100) + n div 10 mod 10"
    using div_mult_mod_eq[of "n div 10" 10] by (simp add: div_mult2_eq[symmetric])
  have 3: "n div 100 = 10 * (n div 1000) + n div 100 mod 10"
    using div_mult_mod_eq[of "n div 100" 10] by (simp add: div_mult2_eq[symmetric])
  have 4: "n div 1000 = 10 * (n div 10000) + n div 1000 mod 10"
    using div_mult_mod_eq[of "n div 1000" 10] by (simp add: div_mult2_eq[symmetric])
  have 5: "n div 10000 = 10 * (n div 100000) + n div 10000 mod 10"
    using div_mult_mod_eq[of "n div 10000" 10] by (simp add: div_mult2_eq[symmetric])
  have d: "n div 100000 < 10" using assms by simp
  have "100000 * (n div 100000) + 10000 * (n div 10000 mod 10) + 1000 * (n div 1000 mod 10)
        + 100 * (n div 100 mod 10) + 10 * (n div 10 mod 10) + n mod 10 = n"
    using 1 2 3 4 5 by linarith
  then show ?thesis
    using d by (simp add: zfill_6[OF assms] digits_to_nat_def digit_val_digit_char)
qed

lemma re_fraction_nil: "re_fraction [] = ([], [])"
  by (simp add: re_fraction_def)

lemma re_fraction_zfill:
  assumes "n < 1000000"
  shows "re_fraction (CHR ''.'' # zfill 6 n) = (zfill 6 n, [])"
proof -
  have t: "take 6 (zfill 6 n) = zfill 6 n" by (simp add: length_zfill_6[OF assms])
  have "\<forall>x\<in>set (zfill 6 n). is_dec x"
    using zfill_dec(1)[of 6 n] by (simp add: list_all_iff)
  then have w: "takeWhile is_dec (zfill 6 n) = zfill 6 n"
    by (simp only: takeWhile_eq_all_conv)
  show ?thesis
    unfolding re_fraction_def by (simp add: t w zfill_dec length_zfill_6[OF assms])
qed

lemma is_0_5_digit_char: "n < 60 \<Longrightarrow> is_0_5 (digit_char (n div 10))"
  by (simp add: is_0_5_def is_dec_digit_char digit_val_digit_char)

lemma digits_to_nat_pair: "n < 100 \<Longrightarrow> digits_to_nat [digit_char (n div 10), digit_char (n mod 10)] = n"
  by (simp add: digits_to_nat_2 digit_val_digit_char)

lemma re_zseconds_nil: "re_zseconds [] = (None, [], [])"
  by (simp add: re_zseconds_def re_opt_colon_def)

lemma re_zseconds_zfill:
  assumes "sec < 60" "re_fraction t = (f, r)"
  shows "re_zseconds (CHR '':'' # zfill 2 sec @ t) = (Some (True, sec), f, r)"
proof -
  from assms(1) have "sec < 100" by simp
  then show ?thesis
    using assms by (simp add: re_zseconds_def re_opt_colon_def zfill_2 is_0_5_digit_char
        is_dec_digit_char digits_to_nat_pair)
qed

lemma re_z_zfill:
  assumes sg: "sg = CHR ''+'' \<or> sg = CHR ''-''" and hh: "hh < 100" and mm: "mm < 60"
    and t: "re_zseconds t = (secs, f, r)"
  shows "re_z (sg # zfill 2 hh @ CHR '':'' # zfill 2 mm @ t) =
     Some (Some \<lparr>z_neg = (sg = CHR ''-''), z_hours = hh, z_colon1 = True, z_minutes = mm,
                  z_seconds = secs, z_fraction = f\<rparr>, r)"
proof -
  from mm have m100: "mm < 100" by simp
  show ?thesis
    using sg hh mm t
    by (simp add: re_z_def re_opt_colon_def zfill_2[OF hh] zfill_2[OF m100] is_0_5_digit_char
        is_dec_digit_char digits_to_nat_pair)
qed

lemma offset_parts:
  fixes a :: nat
  shows "a = a div 3600000000 * 3600000000 + a mod 3600000000 div 60000000 * 60000000
             + a mod 3600000000 mod 60000000 div 1000000 * 1000000
             + a mod 3600000000 mod 60000000 mod 1000000"
proof -
  define r where "r = a mod 3600000000"
  define s where "s = r mod 60000000"
  have 1: "a = a div 3600000000 * 3600000000 + r" by (simp add: r_def)
  have 2: "r = r div 60000000 * 60000000 + s" by (simp add: s_def)
  have 3: "s = s div 1000000 * 1000000 + s mod 1000000" by simp
  from 1 2 3 show ?thesis unfolding r_def[symmetric] s_def[symmetric] by linarith
qed

lemma re_z_format_offset:
  assumes "abs off < 86400000000"
  shows "\<exists>z. re_z (format_offset (Some off)) = Some (z, []) \<and> z_offset z = Some off"
proof -
  define a where "a = nat (abs off)"
  define hh where "hh = a div 3600000000"
  define mm where "mm = a mod 3600000000 div 60000000"
  define ss where "ss = a mod 3600000000 mod 60000000"
  define sec where "sec = ss div 1000000"
  define us where "us = ss mod 1000000"
  define sg where "sg = (if off < 0 then CHR ''-'' else CHR ''+'')"
  define t where "t = (if ss \<noteq> 0 then CHR '':'' # zfill 2 sec
                          @ (if us \<noteq> 0 then CHR ''.'' # zfill 6 us else []) else [])"
  from assms have a: "a < 86400000000" by (simp add: a_def)
  then have hh: "hh < 24" by (simp add: hh_def)
  have mm: "mm < 60" by (simp add: mm_def)
  have ss: "ss < 60000000" by (simp add: ss_def)
  then have sec: "sec < 60" by (simp add: sec_def)
  have us: "us < 1000000" by (simp add: us_def)
  have parts: "a = hh * 3600000000 + mm * 60000000 + sec * 1000000 + us"
    unfolding hh_def mm_def sec_def us_def ss_def by (rule offset_parts)
  have ss_parts: "ss = sec * 1000000 + us" by (simp add: sec_def us_def)
  have f: "format_offset (Some off) = sg # zfill 2 hh @ CHR '':'' # zfill 2 mm @ t"
    by (simp add: format_offset_def Let_def a_def hh_def mm_def ss_def sec_def us_def sg_def t_def)
  have sgn: "sg = CHR ''+'' \<or> sg = CHR ''-''" by (simp add: sg_def)
  have neg: "(sg = CHR ''-'') = (off < 0)" by (simp add: sg_def)
  have h100: "hh < 100" using hh by simp
  have off: "off < 0 \<Longrightarrow> - int a = off" "\<not> off < 0 \<Longrightarrow> int a = off"
    by (simp_all add: a_def)
  have lt: "int a < 86400000000" using a by simp
  consider (none) "ss = 0" | (secs) "ss \<noteq> 0" "us = 0" | (frac) "ss \<noteq> 0" "us \<noteq> 0" by blast
  then show ?thesis
  proof cases
    case none
    then have t0: "t = []" by (simp add: t_def)
    from none ss_parts have z: "sec = 0" "us = 0" by simp_all
    let ?z = "\<lparr>z_neg = (sg = CHR ''-''), z_hours = hh, z_colon1 = True, z_minutes = mm,
                z_seconds = None, z_fraction = []\<rparr>"
    have 1: "re_z (format_offset (Some off)) = Some (Some ?z, [])"
      unfolding f t0 by (rule re_z_zfill[OF sgn h100 mm re_zseconds_nil])
    have "int ((hh * 60 * 60 + mm * 60 + 0) * 1000000 + 0) = int a"
      using parts z by simp
    then have 2: "z_offset (Some ?z) = Some off"
      using lt off by (simp add: z_offset_def Let_def neg digits_to_nat_def digit_val_def
          replicate_numeral del: of_nat_add of_nat_mult)
    from 1 2 show ?thesis by blast
  next
    case secs
    then have t1: "t = CHR '':'' # zfill 2 sec @ []" by (simp add: t_def)
    let ?z = "\<lparr>z_neg = (sg = CHR ''-''), z_hours = hh, z_colon1 = True, z_minutes = mm,
                z_seconds = Some (True, sec), z_fraction = []\<rparr>"
    have 1: "re_z (format_offset (Some off)) = Some (Some ?z, [])"
      unfolding f t1 by (rule re_z_zfill[OF sgn h100 mm re_zseconds_zfill[OF sec re_fraction_nil]])
    have "int ((hh * 60 * 60 + mm * 60 + sec) * 1000000 + 0) = int a"
      using parts secs by simp
    then have 2: "z_offset (Some ?z) = Some off"
      using lt off by (simp add: z_offset_def Let_def neg digits_to_nat_def digit_val_def
          replicate_numeral del: of_nat_add of_nat_mult)
    from 1 2 show ?thesis by blast
  next
    case frac
    then have t2: "t = CHR '':'' # zfill 2 sec @ CHR ''.'' # zfill 6 us" by (simp add: t_def)
    let ?z = "\<lparr>z_neg = (sg = CHR ''-''), z_hours = hh, z_colon1 = True, z_minutes = mm,
                z_seconds = Some (True, sec), z_fraction = zfill 6 us\<rparr>"
    have 1: "re_z (format_offset (Some off)) = Some (Some ?z, [])"
      unfolding f t2
      by (rule re_z_zfill[OF sgn h100 mm re_zseconds_zfill[OF sec re_fraction_zfill[OF us]]])
    have "int ((hh * 60 * 60 + mm * 60 + sec) * 1000000 + us) = int a"
      using parts by simp
    then have 2: "z_offset (Some ?z) = Some off"
      using lt off by (simp add: z_offset_def Let_def neg length_zfill_6[OF us]
          digits_to_nat_zfill_6[OF us] del: of_nat_add of_nat_mult)
    from 1 2 show ?thesis by blast
  qed
qed

lemma format_offset_chars:
  "format_offset (Some off) \<noteq> []" "\<not> is_dec (hd (format_offset (Some off)))"
  by (simp_all add: format_offset_def Let_def is_dec_def)

section \<open>Reading back a printed date-time\<close>

lemma strptime_isoformat_aware:
  assumes wf: "wf_datetime dt" and tz: "tzinfo dt = Some off"
  shows "strptime (isoformat dt) Fmt_iso = Some dt"
proof -
  from wf have us: "microsecond dt = 0" and v: "valid_date (year dt) (month dt) (day dt)"
    and h: "hour dt \<le> 23" and mi: "minute dt \<le> 59" and s: "second dt \<le> 59"
    by (simp_all add: wf_datetime_def)
  from wf tz have "abs off < 86400000000" by (simp add: wf_datetime_def)
  from re_z_format_offset[OF this] obtain z where
    z: "re_z (format_offset (Some off)) = Some (z, [])" and o: "z_offset z = Some off" by blast
  note b = valid_date_bounds[OF v]
  have dt: "\<lparr>year = year dt, month = month dt, day = day dt, hour = hour dt, minute = minute dt,
     second = second dt, microsecond = 0, tzinfo = Some off\<rparr> = dt"
    using us tz by simp
  show ?thesis
    unfolding isoformat_wf[OF wf] tz using b h mi s v z o dt
    by (simp add: re_year_zfill re_lit_same re_month_def re_num_zfill re_day_zfill re_hour_def
        re_minute_def re_second_def re_end_def make_datetime_def)
qed

lemma isoformat_chars:
  "CHR ''T'' \<in> set (isoformat dt)" "\<not> isdigit (isoformat dt)"
  by (simp_all add: isoformat_def isdigit_def not_isdigit_chars)

lemma normalize_isoformat_aware:
  assumes wf: "wf_datetime dt" and tz: "tzinfo dt = Some off"
  shows "normalize_date (isoformat dt) = Inr (isoformat dt)"
proof -
  have "parse_datetime (isoformat dt) = Inr (Some dt)"
    using isoformat_chars(2)[of dt] isoformat_shape(1)[of dt] strptime_isoformat_aware[OF wf tz]
    by (simp add: parse_datetime_def)
  then show ?thesis
    using isoformat_chars(1)[of dt] by (simp add: normalize_date_def)
qed

section \<open>A plain date holds neither \<open>T\<close> nor a colon\<close>

lemma is_dec_date_char: "is_dec c \<Longrightarrow> date_char c"
  by (auto simp: is_dec_def date_char_def)

lemma re_year_chars: "re_year s = Some (y, r) \<Longrightarrow> \<exists>p. s = p @ r \<and> list_all date_char p"
proof -
  assume a: "re_year s = Some (y, r)"
  then obtain a b c d where "s = [a, b, c, d] @ r" "is_dec a" "is_dec b" "is_dec c" "is_dec d"
    by (auto simp: re_year_def split: list.splits if_splits)
  then have "s = [a, b, c, d] @ r \<and> list_all date_char [a, b, c, d]"
    by (simp add: is_dec_date_char)
  then show ?thesis by blast
qed

lemma re_num_chars: "re_num lo hi s = Some (n, r) \<Longrightarrow> \<exists>p. s = p @ r \<and> list_all date_char p"
proof -
  assume a: "re_num lo hi s = Some (n, r)"
  then have "(\<exists>a. s = [a] @ r \<and> is_dec a) \<or> (\<exists>a b. s = [a, b] @ r \<and> is_dec a \<and> is_dec b)"
    by (auto simp: re_num_def split: list.splits if_splits)
  then show ?thesis
  proof
    assume "\<exists>a. s = [a] @ r \<and> is_dec a"
    then obtain a where "s = [a] @ r \<and> list_all date_char [a]" by (auto simp: is_dec_date_char)
    then show ?thesis by blast
  next
    assume "\<exists>a b. s = [a, b] @ r \<and> is_dec a \<and> is_dec b"
    then obtain a b where "s = [a, b] @ r \<and> list_all date_char [a, b]"
      by (auto simp: is_dec_date_char)
    then show ?thesis by blast
  qed
qed

lemma re_day_chars: "re_day s = Some (d, r) \<Longrightarrow> \<exists>p. s = p @ r \<and> list_all date_char p"
proof (cases "re_num 1 31 s")
  case (Some v)
  assume "re_day s = Some (d, r)"
  with Some have "re_num 1 31 s = Some (d, r)" by (simp add: re_day_def)
  then show ?thesis by (rule re_num_chars)
next
  case None
  assume "re_day s = Some (d, r)"
  with None obtain b where "s = [CHR '' '', b] @ r" "is_dec b"
    by (auto simp: re_day_def split: list.splits if_splits)
  then have "s = [CHR '' '', b] @ r \<and> list_all date_char [CHR '' '', b]"
    by (simp add: is_dec_date_char) (simp add: date_char_def)
  then show ?thesis by blast
qed

lemma re_lit_dash: "re_lit CHR ''-'' s = Some r \<Longrightarrow> \<exists>p. s = p @ r \<and> list_all date_char p"
proof -
  assume "re_lit CHR ''-'' s = Some r"
  then obtain a where s: "s = [a] @ r" and l: "lower_char a = lower_char CHR ''-''"
    by (auto simp: re_lit_def split: list.splits if_splits)
  have "a \<noteq> CHR ''T''" "a \<noteq> CHR '':''" using l by (auto simp: lower_char_def Let_def char_of_eq_iff)
  with s have "s = [a] @ r \<and> list_all date_char [a]" by (simp add: date_char_def)
  then show ?thesis by blast
qed

lemma strptime_date_chars:
  assumes "strptime v Fmt_date = Some dt"
  shows "CHR ''T'' \<notin> set v \<and> CHR '':'' \<notin> set v"
proof -
  from assms obtain y s1 s2 m s3 s4 d s5 where
    1: "re_year v = Some (y, s1)" and 2: "re_lit CHR ''-'' s1 = Some s2"
    and 3: "re_month s2 = Some (m, s3)" and 4: "re_lit CHR ''-'' s3 = Some s4"
    and 5: "re_day s4 = Some (d, s5)" and 6: "re_end s5 = Some ()"
    by (auto simp: bind_eq_Some_conv)
  from 6 have e: "s5 = []" by (simp add: re_end_def split: if_splits)
  from re_year_chars[OF 1] obtain p1 where p1: "v = p1 @ s1" "list_all date_char p1" by blast
  from re_lit_dash[OF 2] obtain p2 where p2: "s1 = p2 @ s2" "list_all date_char p2" by blast
  from re_num_chars[OF 3[unfolded re_month_def]] obtain p3 where
    p3: "s2 = p3 @ s3" "list_all date_char p3" by blast
  from re_lit_dash[OF 4] obtain p4 where p4: "s3 = p4 @ s4" "list_all date_char p4" by blast
  from re_day_chars[OF 5] obtain p5 where p5: "s4 = p5 @ s5" "list_all date_char p5" by blast
  have "list_all date_char v"
    using p1 p2 p3 p4 p5 e by simp
  then show ?thesis by (auto simp: list_all_iff date_char_def)
qed

lemma strptime_tzinfo:
  "strptime v Fmt_iso = Some dt \<Longrightarrow> tzinfo dt \<noteq> None"
  "strptime v Fmt_rfc822 = Some dt \<Longrightarrow> tzinfo dt \<noteq> None"
  by (auto simp: bind_eq_Some_conv make_datetime_def split: if_splits)

lemma parse_datetime_aware:
  assumes nd: "\<not> isdigit v" and p: "parse_datetime v = Inr (Some dt)"
    and c: "CHR ''T'' \<in> set v \<or> CHR '':'' \<in> set v"
  shows "tzinfo dt \<noteq> None"
proof -
  from nd p have t: "try_formats v [Fmt_iso, Fmt_rfc822, Fmt_date] = Some dt"
    by (auto simp: parse_datetime_def split: if_splits)
  from c strptime_date_chars[of v] have "strptime v Fmt_date \<noteq> Some dt" by blast
  with t have "strptime v Fmt_iso = Some dt \<or> strptime v Fmt_rfc822 = Some dt"
    by (auto split: option.splits)
  then show ?thesis using strptime_tzinfo by blast
qed

text \<open>
  On an input that is not a digit string \<open>normalize_date\<close> never raises, and it returns
  its own output unchanged.
\<close>

lemma normalize_date_total: "\<not> isdigit v \<Longrightarrow> \<exists>d. normalize_date v = Inr d"
  by (auto simp: normalize_date_def parse_datetime_def split: option.splits)

lemma normalize_date_idem:
  assumes nd: "\<not> isdigit v" and n: "normalize_date v = Inr d"
  shows "normalize_date d = Inr d"
proof (cases "parse_datetime v")
  case (Inl e)
  with n show ?thesis by (simp add: normalize_date_def)
next
  case (Inr p)
  show ?thesis
  proof (cases p)
    case None
    with Inr n have "d = []" by (simp add: normalize_date_def)
    then show ?thesis by (simp add: normalize_date_def parse_datetime_def)
  next
    case (Some dt)
    with Inr have p: "parse_datetime v = Inr (Some dt)" by simp
    have wf: "wf_datetime dt" using p by (rule parse_datetime_wf)
    show ?thesis
    proof (cases "CHR ''T'' \<in> set v \<or> CHR '':'' \<in> set v")
      case True
      from parse_datetime_aware[OF nd p True] obtain off where tz: "tzinfo dt = Some off" by blast
      from n p True have "d = isoformat dt" by (auto simp: normalize_date_def)
      then show ?thesis using normalize_isoformat_aware[OF wf tz] by simp
    next
      case False
      with n p nd have "d = date_isoformat dt" by (auto simp: normalize_date_def)
      then show ?thesis using normalize_date_isoformat[OF wf] by simp
    qed
  qed
qed

section \<open>Transform applied to its own output\<close>

lemma cleaned_record_twice:
  "cleaned_record (cleaned_record r d) d = cleaned_record r d"
  by (simp add: cleaned_record_def strip_idem)

text \<open>
  When no raw date is a digit string, the Transform stage succeeds and returns its own
  output unchanged.
\<close>

lemma transform_idem_without_epoch_dates:
  assumes "\<forall>r\<in>set records. \<not> isdigit (date_posted r)"
  shows "\<exists>cleaned. transform records = Inr cleaned \<and> transform cleaned = Inr cleaned"
proof -
  let ?f = "\<lambda>r. cleaned_record r (projr (normalize_date (date_posted r)))"
  from assms have tot: "\<forall>r\<in>set records. \<exists>d. normalize_date (date_posted r) = Inr d"
    using normalize_date_total by blast
  from transform_total[OF this, of "[]"] have 1: "transform records = Inr (map ?f records)"
    by (simp add: transform_def)
  have stable: "normalize_date (date_posted (?f r)) = Inr (date_posted (?f r))"
    if "r \<in> set records" for r
  proof -
    from that tot obtain d where d: "normalize_date (date_posted r) = Inr d" by blast
    from that assms have "\<not> isdigit (date_posted r)" by blast
    from normalize_date_idem[OF this d] d show ?thesis by (simp add: cleaned_record_def)
  qed
  then have "\<forall>c\<in>set (map ?f records). \<exists>d. normalize_date (date_posted c) = Inr d"
    by auto
  from transform_total[OF this, of "[]"]
  have 2: "transform (map ?f records) = Inr (map ?f (map ?f records))"
    by (simp add: transform_def)
  have "?f (?f r) = ?f r" if "r \<in> set records" for r
  proof -
    define d where "d = projr (normalize_date (date_posted r))"
    have dp: "date_posted (cleaned_record r d) = d" by (simp add: cleaned_record_def)
    from stable[OF that] have "projr (normalize_date (date_posted (cleaned_record r d))) = d"
      unfolding d_def[symmetric] dp by simp
    then show ?thesis
      unfolding d_def[symmetric] by (simp only: cleaned_record_twice)
  qed
  then have "map ?f (map ?f records) = map ?f records" by simp
  with 1 2 show ?thesis by simp
qed

text \<open>
  When some raw date is a digit string and the Transform stage succeeds, a second pass
  does not return the records of the first.
\<close>

lemma transform_twice_with_epoch_date:
  assumes t: "transform records = Inr cleaned" and r: "r \<in> set records"
    and e: "isdigit (date_posted r)"
  shows "transform cleaned \<noteq> Inr cleaned"
proof
  let ?f = "\<lambda>r. cleaned_record r (projr (normalize_date (date_posted r)))"
  assume t2: "transform cleaned = Inr cleaned"
  from transform_eq[OF t] r have c: "cleaned = map ?f records"
    and "\<exists>d. normalize_date (date_posted r) = Inr d" by auto
  then obtain d where d: "normalize_date (date_posted r) = Inr d" by blast
  from normalize_digits[OF e d] obtain dt where "d = isoformat dt" by blast
  then have ne: "d \<noteq> []" by (simp add: isoformat_shape)
  from normalize_digits_unparseable[OF e d] have n2: "normalize_date d = Inr []"
    by (simp add: normalize_date_def)
  from c r have m: "?f r \<in> set cleaned" by simp
  from transform_eq[OF t2] have "map ?f cleaned = map (\<lambda>c. c) cleaned" by simp
  then have "?f (?f r) = ?f r" using m by (simp only: map_eq_conv)
  then have "date_posted (?f (?f r)) = date_posted (?f r)" by simp
  then show False using d n2 ne by (simp add: cleaned_record_def)
qed

section \<open>Transform applied twice\<close>

text \<open>
  Claim C2 fails on the code. The Transform stage is not idempotent on a record whose raw
  date is a digit string: the first pass prints the date-time without an offset, and the
  second pass finds no format for it and replaces it by the empty string. By
  \<open>transform_twice_with_epoch_date\<close> a second pass changes the output of the first
  whenever some raw date is a digit string; by \<open>transform_idem_without_epoch_dates\<close> the
  stage is idempotent on every other list of records.
\<close>

theorem transform_twice_loses_epoch_date:
  "transform [job ''remoteok'' ''7'' ''Engineer'' ''1717196400'']
     = Inr [job ''remoteok'' ''7'' ''Engineer'' ''2024-05-31T23:00:00'']
   \<and> transform [job ''remoteok'' ''7'' ''Engineer'' ''2024-05-31T23:00:00'']
     = Inr [job ''remoteok'' ''7'' ''Engineer'' []]"
  by (simp add: transform_def job_def normalize_date_epoch_example normalize_naive_example
      strip_def isspace_def)

section \<open>The recency cutoff\<close>

lemma parse_datetime_old_example:
  "parse_datetime ''2024-05-30T20:00:00+00:00'' =
     Inr (Some \<lparr>year = 2024, month = 5, day = 30, hour = 20, minute = 0, second = 0,
                microsecond = 0, tzinfo = Some 0\<rparr>)"
  by (simp add: parse_datetime_def isdigit_def isdigit_char_def strptime_eval)

lemma local_to_seconds_fixed:
  assumes "172800 \<le> t" "86400 \<le> t + tz" "t + tz < 3652060 * 86400" "t < 3652060 * 86400"
  shows "local_to_seconds tz t = Inr (t - tz)"
  using assms by (simp add: local_to_seconds_def local_def Let_def)

text \<open>
  The time stamp of \<open>utcnow()\<close>: the clock, moved back by the offset of the local zone.
\<close>

lemma utcnow_timestamp:
  assumes "now div 1000000 \<le> 253402300799" and "- 86400 \<le> tz"
    and "int (now div 1000000) + tz \<le> 253402300799"
  shows "\<exists>n. utcnow now = Inr n \<and> timestamp tz n = Inr (int now - tz * 1000000)"
proof -
  from utcfromtimestamp_correct[OF assms(1)] obtain dt where
    u: "utcfromtimestamp (now div 1000000) = Inr dt" and tzn: "tzinfo dt = None"
    and s: "utc_to_seconds dt - epoch = int (now div 1000000)" by blast
  let ?n = "dt\<lparr>microsecond := now mod 1000000\<rparr>"
  have n: "utcnow now = Inr ?n" using u by (simp add: utcnow_def)
  have t: "utc_to_seconds ?n = int (now div 1000000) + epoch"
    using s by (simp add: utc_to_seconds_def)
  have "local_to_seconds tz (utc_to_seconds ?n) = Inr (utc_to_seconds ?n - tz)"
    unfolding t using assms by (intro local_to_seconds_fixed) (simp_all add: epoch_def)
  then have "timestamp tz ?n =
      Inr ((int (now div 1000000) - tz) * 1000000 + int (now mod 1000000))"
    using tzn t by (simp add: timestamp_def)
  moreover have "now = now div 1000000 * 1000000 + now mod 1000000" by simp
  then have "int now = int (now div 1000000 * 1000000 + now mod 1000000)" by (simp only:)
  then have "int now = int (now div 1000000) * 1000000 + int (now mod 1000000)"
    by (simp only: of_nat_add of_nat_mult of_nat_numeral)
  ultimately have "timestamp tz ?n = Inr (int now - tz * 1000000)"
    by (simp add: algebra_simps)
  with n show ?thesis by blast
qed


text \<open>
  What the Filter stage does with a record whose date carries an offset: it compares the
  moment of the record with the clock less 24 hours less the offset of the local zone.
\<close>

lemma filter_jobs_aware_record:
  assumes "now div 1000000 \<le> 253402300799" and "- 86400 \<le> tz"
    and "int (now div 1000000) + tz \<le> 253402300799"
    and "parse_datetime (date_posted r) = Inr (Some dt)" and "tzinfo dt = Some off"
  shows "filter_jobs tz now [r] [] =
     Inr (if (utc_to_seconds dt - epoch) * 1000000 + int (microsecond dt) - off
             < int now - tz * 1000000 - 86400000000
          then [] else [r])"
proof -
  from utcnow_timestamp[OF assms(1-3)] obtain n where
    "utcnow now = Inr n" "timestamp tz n = Inr (int now - tz * 1000000)" by blast
  then show ?thesis
    using assms(4,5) by (simp add: filter_jobs_def timestamp_def)
qed

text \<open>
  A record whose date carries an offset and lies 48 hours or more before the clock is
  dropped in every local zone less than a day from UTC.
\<close>

lemma filter_jobs_drops_two_day_old_record:
  assumes "now div 1000000 \<le> 253402300799" and "- 86400 \<le> tz" and "tz < 86400"
    and "int (now div 1000000) + tz \<le> 253402300799"
    and "parse_datetime (date_posted r) = Inr (Some dt)" and "tzinfo dt = Some off"
    and "(utc_to_seconds dt - epoch) * 1000000 + int (microsecond dt) - off
           \<le> int now - 172800000000"
  shows "filter_jobs tz now [r] [] = Inr []"
  using filter_jobs_aware_record[OF assms(1,2,4,5,6)] assms(3,7) by simp

text \<open>
  A plain date at the first day of the calendar is not dropped: its time stamp cannot be
  taken, and the Filter stage ends in that error.
\<close>

lemma filter_jobs_raises_on_first_day:
  "filter_jobs 0 1717200000000000 [job ''remotive'' ''7'' ''Engineer'' ''0001-01-01''] []
     = Inl (ValueError ''year is out of range'')"
  by (simp add: filter_jobs_def utcnow_example job_def parse_datetime_def isdigit_def
      isdigit_char_def strptime_eval timestamp_eval)

text \<open>
  Claim C7 fails on the code where the local zone of the process is not UTC. With the
  clock at 2024-06-01T00:00:00 UTC and a local zone 14 hours east of UTC, a record posted
  28 hours before \<open>now\<close> is kept; with the local zone at UTC the same record is dropped.
\<close>

theorem filter_jobs_cutoff_follows_local_zone:
  "filter_jobs 50400 1717200000000000
       [job ''remotive'' ''7'' ''Engineer'' ''2024-05-30T20:00:00+00:00''] []
     = Inr [job ''remotive'' ''7'' ''Engineer'' ''2024-05-30T20:00:00+00:00'']
   \<and> filter_jobs 0 1717200000000000
       [job ''remotive'' ''7'' ''Engineer'' ''2024-05-30T20:00:00+00:00''] []
     = Inr []"
  by (simp add: filter_jobs_def utcnow_example job_def parse_datetime_old_example timestamp_eval)

end
